theory Spec2Isabelle
  imports Main "HOL-Library.Word" "HOL-Library.Multiset"
begin

section \<open>Strings as the dialog builds them\<close>

text \<open>
  Strings are byte strings. \<open>QString::number\<close> and \<open>QString::arg\<close> on an unsigned
  integer print it in decimal, without sign, padding or grouping.
\<close>

definition digit_char :: "nat \<Rightarrow> char" where
  "digit_char d =
     (if d = 0 then CHR ''0'' else if d = 1 then CHR ''1'' else if d = 2 then CHR ''2''
      else if d = 3 then CHR ''3'' else if d = 4 then CHR ''4'' else if d = 5 then CHR ''5''
      else if d = 6 then CHR ''6'' else if d = 7 then CHR ''7'' else if d = 8 then CHR ''8''
      else CHR ''9'')"

fun QString_number :: "nat \<Rightarrow> string" where
  "QString_number n =
     (if n < 10 then [digit_char n]
      else QString_number (n div 10) @ [digit_char (n mod 10)])"

declare QString_number.simps [simp del]

text \<open>
  \<open>QString::arg(a)\<close> replaces every occurrence of the lowest-numbered place marker
  of the string by \<open>a\<close>. A place marker is \<open>%\<close>, an optional \<open>L\<close>, and one or two
  decimal digits; a \<open>%\<close> that starts no marker is ordinary text. A string without a marker
  is returned as it is.
\<close>

definition digitValue :: "char \<Rightarrow> nat option" where
  "digitValue c =
     (let code = (of_char c :: nat)
      in if 48 \<le> code \<and> code \<le> 57 then Some (code - 48) else None)"

text \<open>
  \<open>escape_digits cs\<close> reads the digits of a marker at the head of \<open>cs\<close>: the marker's
  number and how many characters it takes.
\<close>

definition escape_digits :: "string \<Rightarrow> (nat \<times> nat) option" where
  "escape_digits cs =
     (case cs of
        [] \<Rightarrow> None
      | d1 # r1 \<Rightarrow>
          (case digitValue d1 of
             None \<Rightarrow> None
           | Some v1 \<Rightarrow>
               (case r1 of
                  [] \<Rightarrow> Some (v1, 1)
                | d2 # r2 \<Rightarrow>
                    (case digitValue d2 of
                       None \<Rightarrow> Some (v1, 1)
                     | Some v2 \<Rightarrow> Some (10 * v1 + v2, 2)))))"

text \<open>The text after a \<open>%\<close>: an optional \<open>L\<close>, then the digits.\<close>

definition escape_at :: "string \<Rightarrow> (nat \<times> nat) option" where
  "escape_at cs =
     (case cs of
        [] \<Rightarrow> None
      | c # r \<Rightarrow>
          (if c = CHR ''L''
           then (case escape_digits r of None \<Rightarrow> None | Some (n, k) \<Rightarrow> Some (n, Suc k))
           else escape_digits cs))"

datatype arg_segment = Text char | Escape nat string

fun findArgEscapes :: "string \<Rightarrow> arg_segment list" where
  "findArgEscapes [] = []"
| "findArgEscapes (c # cs) =
     (if c = CHR ''%''
      then (case escape_at cs of
              None \<Rightarrow> Text c # findArgEscapes cs
            | Some (n, k) \<Rightarrow> Escape n (c # take k cs) # findArgEscapes (drop k cs))
      else Text c # findArgEscapes cs)"

fun escape_numbers :: "arg_segment list \<Rightarrow> nat list" where
  "escape_numbers [] = []"
| "escape_numbers (Text c # segs) = escape_numbers segs"
| "escape_numbers (Escape n raw # segs) = n # escape_numbers segs"

fun replaceArgEscapes :: "nat \<Rightarrow> string \<Rightarrow> arg_segment list \<Rightarrow> string" where
  "replaceArgEscapes m a [] = []"
| "replaceArgEscapes m a (Text c # segs) = c # replaceArgEscapes m a segs"
| "replaceArgEscapes m a (Escape n raw # segs) =
     (if n = m then a else raw) @ replaceArgEscapes m a segs"

definition QString_arg :: "string \<Rightarrow> string \<Rightarrow> string" where
  "QString_arg s a =
     (let segs = findArgEscapes s; ns = escape_numbers segs
      in if ns = [] then s else replaceArgEscapes (min_list ns) a segs)"

text \<open>
  \<open>QObject::tr\<close> looks its argument up in the installed translation catalogue and returns
  it unchanged when there is no translation. The model is the dialog in its source
  language.
\<close>

definition tr :: "string \<Rightarrow> string" where
  "tr s = s"

text \<open>
  Modelled from the spec: the macro \<open>UTF8_RIGHTWARDS_ARROW\<close> is defined in the included
  \<open>ui/utf8_entities.h\<close>, outside these sources. The spec writes the rightwards arrow
  U+2192 between the two point codes; here it is the three bytes of its UTF-8 encoding.
\<close>

definition UTF8_RIGHTWARDS_ARROW :: string where
  "UTF8_RIGHTWARDS_ARROW = [CHR 0xE2, CHR 0x86, CHR 0x92]"


section \<open>Call records\<close>

text \<open>
  The types of the call record are declared in headers outside these sources. The
  records below have the fields the dialog reads, unsigned numbers as \<open>nat\<close>. Of the
  two enumerations only the tags the dialog names are constructors of their own; every
  other tag is \<open>VOIP_OTHER n\<close> or \<open>VOIP_STATE_OTHER n\<close>. The call number is the
  \<open>guint16\<close> that the dialog collects in its \<open>QSet<guint16>\<close>.
\<close>

record nstime =
  secs :: int
  nsecs :: int

text \<open>
  Modelled from the spec: the address type is declared outside these sources. The spec
  orders addresses byte-wise over a normalized representation, so an address is the list
  of its bytes.
\<close>

type_synonym address = "nat list"

datatype voip_protocol = VOIP_ISUP | VOIP_H323 | VOIP_COMMON | VOIP_OTHER nat

datatype voip_call_state = VOIP_CALL_SETUP | VOIP_STATE_OTHER nat

record isup_calls_info =
  ni :: nat
  opc :: nat
  dpc :: nat

record h323_calls_info =
  is_faststart_Setup :: bool
  is_faststart_Proc :: bool
  is_h245Tunneling :: bool

text \<open>
  \<open>prot_info\<close> is an untyped pointer that \<open>drawData\<close> casts to the payload type of the
  call's protocol. The model keeps what each of the two casts reads through it.
\<close>

record prot_info =
  as_isup :: isup_calls_info
  as_h323 :: h323_calls_info

record voip_calls_info =
  call_state :: voip_call_state
  from_identity :: string
  to_identity :: string
  prot_info :: prot_info
  initial_speaker :: address
  npackets :: nat
  protocol :: voip_protocol
  protocol_name :: "string option"
  call_comment :: string
  call_num :: "16 word"
  start_rel_ts :: nstime
  stop_rel_ts :: nstime

text \<open>
  Call records live in memory and are shared: the queue of calls and the rows of the
  table both hold pointers to them, and the tap updates them in place. A pointer is an
  address or null (\<open>None\<close>); the memory gives the record at each address.
\<close>

type_synonym addr = nat

type_synonym memory = "addr \<Rightarrow> voip_calls_info"

section \<open>The event sequence\<close>

text \<open>
  The types of the sequence analysis are declared in headers outside these sources. An
  item has the fields the dialog reads and writes: the frame it belongs to (the dialog
  reads its number), the number of its call, and the flag that shows it in the flow
  diagram.
\<close>

record frame_data =
  num :: nat

record seq_analysis_item =
  fd :: frame_data
  conv_num :: "16 word"
  display :: bool

text \<open>
  A \<open>GList\<close> is given by the data pointers of its nodes, from the current node on: the
  empty list is the null link, and a node whose data pointer is null holds \<open>None\<close>. Each
  node of the event sequence owns its item. A \<open>GQueue\<close> pointer may be null itself.
\<close>

type_synonym 'a GList = "'a option list"

record seq_analysis_info =
  items :: "seq_analysis_item GList option"

definition g_queue_peek_nth_link :: "'a GList option \<Rightarrow> nat \<Rightarrow> 'a GList" where
  "g_queue_peek_nth_link queue n = (case queue of None \<Rightarrow> [] | Some nodes \<Rightarrow> drop n nodes)"

section \<open>Rows of the call table\<close>

definition start_time_col :: int where "start_time_col = 0"
definition stop_time_col :: int where "stop_time_col = 1"
definition initial_speaker_col :: int where "initial_speaker_col = 2"
definition from_col :: int where "from_col = 3"
definition to_col :: int where "to_col = 4"
definition protocol_col :: int where "protocol_col = 5"
definition packets_col :: int where "packets_col = 6"
definition state_col :: int where "state_col = 7"
definition comments_col :: int where "comments_col = 8"

text \<open>
  A row is a \<open>VoipCallsTreeWidgetItem\<close>: the pointer stored under \<open>Qt::UserRole\<close> of
  column 0, the text of each column (empty until set), and whether the row is selected.
\<close>

record VoipCallsTreeWidgetItem =
  user_data :: "addr option"
  item_text :: "int \<Rightarrow> string"
  item_selected :: bool

definition setText :: "int \<Rightarrow> string \<Rightarrow> VoipCallsTreeWidgetItem \<Rightarrow> VoipCallsTreeWidgetItem" where
  "setText col s item = item\<lparr>item_text := (item_text item)(col := s)\<rparr>"

text \<open>
  What the dialog calls and these sources do not hold is a parameter of the model: the
  rendering of a relative time (\<open>QString::number(nstime_to_sec(ts), 'f', 6)\<close>, floating
  point), the rendering of an address, the two name tables \<open>voip_protocol_name\<close> and
  \<open>voip_call_state_name\<close>, and the sort of the event sequence
  (\<open>sequence_analysis_list_sort\<close>).
\<close>

record externals =
  nstime_text :: "nstime \<Rightarrow> string"
  address_to_display :: "address \<Rightarrow> string"
  voip_protocol_name :: "voip_protocol \<Rightarrow> string"
  voip_call_state_name :: "voip_call_state \<Rightarrow> string"
  sequence_analysis_list_sort :: "seq_analysis_info \<Rightarrow> seq_analysis_info"

text \<open>The comment of a call: the \<open>switch\<close> on the protocol in \<open>drawData\<close>.\<close>

definition call_comments :: "voip_calls_info \<Rightarrow> string" where
  "call_comments call_info =
     (case protocol call_info of
        VOIP_ISUP \<Rightarrow>
          (let isup_info = as_isup (prot_info call_info)
           in QString_arg (QString_arg (QString_arg (QString_arg (QString_arg
                ''%1-%2 %3 %4-%5''
                (QString_number (ni isup_info)))
                (QString_number (opc isup_info)))
                UTF8_RIGHTWARDS_ARROW)
                (QString_number (ni isup_info)))
                (QString_number (dpc isup_info)))
      | VOIP_H323 \<Rightarrow>
          (let h323_info = as_h323 (prot_info call_info);
               on_str = tr ''On'';
               off_str = tr ''Off'';
               flag = (if call_state call_info = VOIP_CALL_SETUP
                       then is_faststart_Setup h323_info
                       else if is_faststart_Setup h323_info \<and> is_faststart_Proc h323_info
                            then True else False)
           in QString_arg (QString_arg
                (tr ''Tunneling: %1  Fast Start: %2'')
                (if is_h245Tunneling h323_info then on_str else off_str))
                (if flag then on_str else off_str))
      | VOIP_COMMON \<Rightarrow> call_comment call_info
      | VOIP_OTHER n \<Rightarrow> call_comment call_info)"

definition drawData :: "externals \<Rightarrow> memory \<Rightarrow> VoipCallsTreeWidgetItem \<Rightarrow> VoipCallsTreeWidgetItem" where
  "drawData ext mem item =
     (case user_data item of
        None \<Rightarrow> item
      | Some p \<Rightarrow>
          (let call_info = mem p
           in setText comments_col (call_comments call_info)
             (setText state_col (voip_call_state_name ext (call_state call_info))
             (setText packets_col (QString_number (npackets call_info))
             (setText protocol_col
                (case (if protocol call_info = VOIP_COMMON then protocol_name call_info
                       else None) of
                   Some name \<Rightarrow> name
                 | None \<Rightarrow> voip_protocol_name ext (protocol call_info))
             (setText to_col (to_identity call_info)
             (setText from_col (from_identity call_info)
             (setText initial_speaker_col (address_to_display ext (initial_speaker call_info))
             (setText stop_time_col (nstime_text ext (stop_rel_ts call_info))
             (setText start_time_col (nstime_text ext (start_rel_ts call_info)) item))))))))))"

section \<open>The comparator of the rows\<close>

text \<open>
  Modelled from the spec: \<open>nstime_cmp\<close> and the type of its arguments are defined
  outside these sources. The spec compares the relative timestamps (seconds, sub-second
  resolution) numerically: the result is negative, zero or positive as the first time is
  before, equal to or after the second. \<open>nstime_value\<close> is the time in nanoseconds.
\<close>

definition nstime_value :: "nstime \<Rightarrow> int" where
  "nstime_value t = secs t * 1000000000 + nsecs t"

definition nstime_cmp :: "nstime \<Rightarrow> nstime \<Rightarrow> int" where
  "nstime_cmp a b =
     (if nstime_value a < nstime_value b then - 1
      else if nstime_value a = nstime_value b then 0 else 1)"

text \<open>
  Modelled from the spec: \<open>cmp_address\<close> is defined outside these sources. The spec
  compares addresses by a total ordering, byte-wise over the normalized representation.
\<close>

fun cmp_address :: "address \<Rightarrow> address \<Rightarrow> int" where
  "cmp_address [] [] = 0"
| "cmp_address [] (y # ys) = - 1"
| "cmp_address (x # xs) [] = 1"
| "cmp_address (x # xs) (y # ys) =
     (if x < y then - 1 else if y < x then 1 else cmp_address xs ys)"

text \<open>
  Modelled from the spec: \<open>QTreeWidgetItem::operator<\<close> belongs to the widget library.
  The spec: a case-sensitive lexical string comparison of the rendered display text of the
  sort column.
\<close>

fun string_less :: "string \<Rightarrow> string \<Rightarrow> bool" where
  "string_less [] [] = False"
| "string_less [] (y # ys) = True"
| "string_less (x # xs) [] = False"
| "string_less (x # xs) (y # ys) =
     (if (of_char x :: nat) < of_char y then True
      else if (of_char y :: nat) < of_char x then False
      else string_less xs ys)"

definition QTreeWidgetItem_less ::
  "int \<Rightarrow> VoipCallsTreeWidgetItem \<Rightarrow> VoipCallsTreeWidgetItem \<Rightarrow> bool" where
  "QTreeWidgetItem_less column this other =
     string_less (item_text this column) (item_text other column)"

text \<open>
  \<open>VoipCallsTreeWidgetItem::operator<\<close>. \<open>sort_column\<close> is the sort column of the tree
  the row belongs to.
\<close>

definition operator_less ::
  "memory \<Rightarrow> int \<Rightarrow> VoipCallsTreeWidgetItem \<Rightarrow> VoipCallsTreeWidgetItem \<Rightarrow> bool" where
  "operator_less mem sort_column this other =
     (case user_data this of
        None \<Rightarrow> False
      | Some p \<Rightarrow>
          (case user_data other of
             None \<Rightarrow> False
           | Some q \<Rightarrow>
               (let this_call_info = mem p; other_call_info = mem q
                in if sort_column = start_time_col
                   then nstime_cmp (start_rel_ts this_call_info) (start_rel_ts other_call_info) < 0
                   else if sort_column = stop_time_col
                   then nstime_cmp (stop_rel_ts this_call_info) (stop_rel_ts other_call_info) < 0
                   else if sort_column = initial_speaker_col
                   then cmp_address (initial_speaker this_call_info)
                          (initial_speaker other_call_info) < 0
                   else if sort_column = packets_col
                   then npackets this_call_info < npackets other_call_info
                   else QTreeWidgetItem_less sort_column this other)))"

section \<open>The call table\<close>

datatype SortOrder = AscendingOrder | DescendingOrder

record QTreeWidget =
  topLevelItems :: "VoipCallsTreeWidgetItem list"
  sortingEnabled :: bool
  sortColumn :: int
  sortOrder :: SortOrder

definition topLevelItemCount :: "QTreeWidget \<Rightarrow> nat" where
  "topLevelItemCount tree = length (topLevelItems tree)"

text \<open>
  The dialog uses the selected rows for their number and for the set of their calls only,
  never for their order.
\<close>

definition selectedItems :: "QTreeWidget \<Rightarrow> VoipCallsTreeWidgetItem list" where
  "selectedItems tree = filter item_selected (topLevelItems tree)"

text \<open>
  The widget sorts its rows with a stable sort, by \<open>operator<\<close> of the rows when the
  order is ascending and by its converse when it is descending. For a comparator that is
  a strict weak order every stable sort returns the same list; the model computes it by
  insertion: a row goes before the first row that is not less than it.
\<close>

fun insert_row :: "('a \<Rightarrow> 'a \<Rightarrow> bool) \<Rightarrow> 'a \<Rightarrow> 'a list \<Rightarrow> 'a list" where
  "insert_row lt x [] = [x]"
| "insert_row lt x (y # ys) =
     (if lt y x then y # insert_row lt x ys else x # y # ys)"

fun stable_sort :: "('a \<Rightarrow> 'a \<Rightarrow> bool) \<Rightarrow> 'a list \<Rightarrow> 'a list" where
  "stable_sort lt [] = []"
| "stable_sort lt (x # xs) = insert_row lt x (stable_sort lt xs)"

definition item_compare ::
  "memory \<Rightarrow> int \<Rightarrow> SortOrder \<Rightarrow> VoipCallsTreeWidgetItem \<Rightarrow> VoipCallsTreeWidgetItem \<Rightarrow> bool" where
  "item_compare mem column order left right =
     (case order of
        AscendingOrder \<Rightarrow> operator_less mem column left right
      | DescendingOrder \<Rightarrow> operator_less mem column right left)"

definition sortItems :: "memory \<Rightarrow> QTreeWidget \<Rightarrow> QTreeWidget" where
  "sortItems mem tree =
     tree\<lparr>topLevelItems :=
       stable_sort (item_compare mem (sortColumn tree) (sortOrder tree)) (topLevelItems tree)\<rparr>"

text \<open>
  \<open>setSortingEnabled(true)\<close> sorts the rows by the current sort column and order and then
  sets the flag; \<open>setSortingEnabled(false)\<close> clears the flag.
\<close>

definition setSortingEnabled :: "memory \<Rightarrow> bool \<Rightarrow> QTreeWidget \<Rightarrow> QTreeWidget" where
  "setSortingEnabled mem enable tree =
     (if enable then (sortItems mem tree)\<lparr>sortingEnabled := True\<rparr>
      else tree\<lparr>sortingEnabled := False\<rparr>)"

text \<open>
  The constructor of a row: the row keeps the pointer and draws itself (\<open>new_row\<close>), and
  it is appended to the rows of the tree.
\<close>

definition new_row :: "externals \<Rightarrow> memory \<Rightarrow> addr option \<Rightarrow> VoipCallsTreeWidgetItem" where
  "new_row ext mem call_info =
     drawData ext mem
       \<lparr>user_data = call_info, item_text = (\<lambda>column. []), item_selected = False\<rparr>"

definition new_VoipCallsTreeWidgetItem ::
  "externals \<Rightarrow> memory \<Rightarrow> QTreeWidget \<Rightarrow> addr option \<Rightarrow> QTreeWidget" where
  "new_VoipCallsTreeWidgetItem ext mem tree call_info =
     tree\<lparr>topLevelItems := topLevelItems tree @ [new_row ext mem call_info]\<rparr>"

section \<open>The dialog\<close>

text \<open>
  The state of the dialog that its functions read and write: the memory that holds the
  call records, \<open>tapinfo_.callsinfos\<close> (created by the constructor, never null),
  \<open>tapinfo_.graph_analysis\<close> (a pointer, \<open>None\<close> when null), the call table, the
  \<open>file_closed_\<close> flag, and what \<open>updateWidgets\<close> sets on the three buttons.
\<close>

record VoipCallsDialog =
  heap :: memory
  callsinfos :: "addr GList"
  graph_analysis :: "seq_analysis_info option"
  callTreeWidget :: QTreeWidget
  file_closed :: bool
  prepare_button_enabled :: bool
  sequence_button_enabled :: bool
  player_button_enabled :: bool
  player_button_text :: string

text \<open>
  \<open>updateWidgets\<close>. The context menu of the dialog has no submenu, so its loop over the
  submenus does nothing. The branch for the audio player is compiled out.
\<close>

definition updateWidgets :: "VoipCallsDialog \<Rightarrow> VoipCallsDialog" where
  "updateWidgets d =
     (let selected = (length (selectedItems (callTreeWidget d)) > 0);
          have_ga_items =
            (case graph_analysis d of None \<Rightarrow> False | Some ga \<Rightarrow> items ga \<noteq> None)
      in d\<lparr>prepare_button_enabled := selected \<and> have_ga_items,
            sequence_button_enabled := selected \<and> have_ga_items,
            player_button_enabled := False,
            player_button_text := tr ''No Audio''\<rparr>)"

subsection \<open>updateCalls\<close>

text \<open>
  The first loop of \<open>updateCalls\<close>, from the link \<open>cur_call\<close> on: a row for each node
  until the list ends or a node has no data. The result lists the table after each
  iteration.
\<close>

fun add_missing_items ::
  "externals \<Rightarrow> memory \<Rightarrow> addr GList \<Rightarrow> QTreeWidget \<Rightarrow> QTreeWidget list" where
  "add_missing_items ext mem [] tree = []"
| "add_missing_items ext mem (None # cur_call) tree = []"
| "add_missing_items ext mem (Some call_info # cur_call) tree =
     (let tree' = new_VoipCallsTreeWidgetItem ext mem tree (Some call_info)
      in tree' # add_missing_items ext mem cur_call tree')"

text \<open>
  The second loop: the iterator visits every row of the table in order and the row draws
  itself. \<open>visited\<close> are the rows before the iterator, already drawn. The result lists
  the table after each iteration.
\<close>

fun fill_in_the_tree ::
  "externals \<Rightarrow> memory \<Rightarrow> VoipCallsTreeWidgetItem list \<Rightarrow> VoipCallsTreeWidgetItem list \<Rightarrow>
   QTreeWidget \<Rightarrow> QTreeWidget list" where
  "fill_in_the_tree ext mem visited [] tree = []"
| "fill_in_the_tree ext mem visited (vcti # iter) tree =
     (let tree' = tree\<lparr>topLevelItems := visited @ drawData ext mem vcti # iter\<rparr>
      in tree' # fill_in_the_tree ext mem (visited @ [drawData ext mem vcti]) iter tree')"

text \<open>
  \<open>updateCalls\<close>, as the list of the states of the dialog after each of its steps: sorting
  switched off, each row added, each row drawn, sorting switched on, \<open>updateWidgets\<close>.
  Resizing the columns changes the widths of the columns only, which the model does not
  hold. \<open>updateCalls\<close> returns the last state.
\<close>

definition updateCalls_states :: "externals \<Rightarrow> VoipCallsDialog \<Rightarrow> VoipCallsDialog list" where
  "updateCalls_states ext d =
     (let cur_call = g_queue_peek_nth_link (Some (callsinfos d))
                       (topLevelItemCount (callTreeWidget d));
          tree1 = setSortingEnabled (heap d) False (callTreeWidget d);
          added = add_missing_items ext (heap d) cur_call tree1;
          tree2 = last (tree1 # added);
          filled = fill_in_the_tree ext (heap d) [] (topLevelItems tree2) tree2;
          tree3 = last (tree2 # filled);
          tree4 = setSortingEnabled (heap d) True tree3
      in map (\<lambda>tree. d\<lparr>callTreeWidget := tree\<rparr>) ([tree1] @ added @ filled @ [tree4])
         @ [updateWidgets (d\<lparr>callTreeWidget := tree4\<rparr>)])"

definition updateCalls :: "externals \<Rightarrow> VoipCallsDialog \<Rightarrow> VoipCallsDialog" where
  "updateCalls ext d = last (updateCalls_states ext d)"

subsection \<open>prepareFilter\<close>

text \<open>
  Reading a field through a null pointer ends the program; in the model it is the result
  \<open>Inl NullPointerDereference\<close>.
\<close>

datatype error = NullPointerDereference

text \<open>
  The loop that collects the numbers of the selected calls. It reads \<open>call_num\<close> through
  the pointer of each selected row and does not test the pointer.
\<close>

fun selected_call_nums ::
  "memory \<Rightarrow> VoipCallsTreeWidgetItem list \<Rightarrow> 16 word set \<Rightarrow> error + 16 word set" where
  "selected_call_nums mem [] selected_calls = Inr selected_calls"
| "selected_call_nums mem (ti # tis) selected_calls =
     (case user_data ti of
        None \<Rightarrow> Inl NullPointerDereference
      | Some call_info \<Rightarrow>
          selected_call_nums mem tis (insert (call_num (mem call_info)) selected_calls))"

text \<open>
  The loop over the event sequence, from the link \<open>cur_ga_item\<close> on, with the local
  variables \<open>or_prepend\<close> and \<open>filter_str\<close>.
\<close>

fun prepareFilter_loop ::
  "16 word set \<Rightarrow> seq_analysis_item GList \<Rightarrow> string \<Rightarrow> string \<Rightarrow> string" where
  "prepareFilter_loop selected_calls [] or_prepend filter_str = filter_str"
| "prepareFilter_loop selected_calls (None # cur_ga_item) or_prepend filter_str = filter_str"
| "prepareFilter_loop selected_calls (Some ga_item # cur_ga_item) or_prepend filter_str =
     (if conv_num ga_item \<in> selected_calls
      then prepareFilter_loop selected_calls cur_ga_item '' or ''
             (filter_str @
              QString_arg (QString_arg ''%1frame.number == %2'' or_prepend)
                (QString_number (num (fd ga_item))))
      else prepareFilter_loop selected_calls cur_ga_item or_prepend filter_str)"

text \<open>
  \<open>prepareFilter\<close> returns the signals it emits: none when it returns at its guard, one
  \<open>updateFilter\<close> with the filter otherwise. Past the guard the pointer
  \<open>tapinfo_.graph_analysis\<close> is not null; the case on it names what it points to.
\<close>

datatype signal = updateFilter string

definition prepareFilter :: "VoipCallsDialog \<Rightarrow> error + signal list" where
  "prepareFilter d =
     (if length (selectedItems (callTreeWidget d)) < 1 \<or> graph_analysis d = None
      then Inr []
      else (case selected_call_nums (heap d) (selectedItems (callTreeWidget d)) {} of
              Inl e \<Rightarrow> Inl e
            | Inr selected_calls \<Rightarrow>
                (case graph_analysis d of
                   None \<Rightarrow> Inl NullPointerDereference
                 | Some ga \<Rightarrow>
                     Inr [updateFilter
                       (prepareFilter_loop selected_calls
                          (g_queue_peek_nth_link (items ga) 0) [] [])])))"

subsection \<open>showSequence\<close>

text \<open>
  The loop that sets the \<open>display\<close> flag, from the head of the queue on. The result is
  the list after the loop.
\<close>

fun showSequence_loop ::
  "16 word set \<Rightarrow> seq_analysis_item GList \<Rightarrow> seq_analysis_item GList" where
  "showSequence_loop selected_calls [] = []"
| "showSequence_loop selected_calls (None # cur_ga_item) = None # cur_ga_item"
| "showSequence_loop selected_calls (Some ga_item # cur_ga_item) =
     Some (ga_item\<lparr>display := conv_num ga_item \<in> selected_calls\<rparr>)
       # showSequence_loop selected_calls cur_ga_item"

text \<open>
  \<open>showSequence\<close>, up to the construction of the flow dialog, which receives the pointer
  \<open>tapinfo_.graph_analysis\<close> and so the event sequence of the state returned here. The
  sort is called on the pointer whether it is null or not; the next statement reads
  \<open>items\<close> through it.
\<close>

definition showSequence :: "externals \<Rightarrow> VoipCallsDialog \<Rightarrow> error + VoipCallsDialog" where
  "showSequence ext d =
     (if file_closed d then Inr d
      else (case selected_call_nums (heap d) (selectedItems (callTreeWidget d)) {} of
              Inl e \<Rightarrow> Inl e
            | Inr selected_calls \<Rightarrow>
                (case graph_analysis d of
                   None \<Rightarrow> Inl NullPointerDereference
                 | Some ga \<Rightarrow>
                     (let ga_sorted = sequence_analysis_list_sort ext ga
                      in Inr (d\<lparr>graph_analysis := Some (ga_sorted\<lparr>items :=
                           map_option (showSequence_loop selected_calls)
                             (items ga_sorted)\<rparr>)\<rparr>)))))"

section \<open>The filter as the specification words it\<close>

text \<open>
  The specification of the filter: one clause \<open>frame.number == n\<close> for each event of a
  selected call, the clauses joined with \<open>or\<close>.
\<close>

text \<open>The events of a list, up to its first node without data.\<close>

fun data_until_null :: "'a GList \<Rightarrow> 'a list" where
  "data_until_null [] = []"
| "data_until_null (None # nodes) = []"
| "data_until_null (Some x # nodes) = x # data_until_null nodes"

definition clause :: "seq_analysis_item \<Rightarrow> string" where
  "clause e = ''frame.number == '' @ QString_number (num (fd e))"

fun join_or :: "string list \<Rightarrow> string" where
  "join_or [] = []"
| "join_or [c] = c"
| "join_or (c # c' # cs) = c @ '' or '' @ join_or (c' # cs)"

definition compileFilter :: "16 word set \<Rightarrow> seq_analysis_item list \<Rightarrow> string" where
  "compileFilter selected_call_ids events =
     join_or (map clause (filter (\<lambda>e. conv_num e \<in> selected_call_ids) events))"

text \<open>The calls of the selected rows, as a set of call numbers.\<close>

definition selected_call_ids :: "VoipCallsDialog \<Rightarrow> 16 word set" where
  "selected_call_ids d =
     set (map (\<lambda>p. call_num (heap d p))
            (List.map_filter user_data (selectedItems (callTreeWidget d))))"

section \<open>The refresh of the table as the specification words it\<close>

text \<open>
  The calls created since the last refresh are the calls of the store from the position
  that is the number of rows on, up to the end of the store or a node without data. The
  refreshed table has the old rows and a new row for each of these calls, in store order,
  every row drawn from the current state of its call.
\<close>

definition calls_since_last_refresh :: "VoipCallsDialog \<Rightarrow> addr list" where
  "calls_since_last_refresh d =
     data_until_null (drop (topLevelItemCount (callTreeWidget d)) (callsinfos d))"

definition appended_and_refreshed :: "externals \<Rightarrow> VoipCallsDialog \<Rightarrow> VoipCallsTreeWidgetItem list" where
  "appended_and_refreshed ext d =
     map (drawData ext (heap d))
       (topLevelItems (callTreeWidget d) @
        map (\<lambda>p. new_row ext (heap d) (Some p)) (calls_since_last_refresh d))"

text \<open>The table after both loops of \<open>updateCalls\<close>, before sorting is switched on again.\<close>

definition table_before_sorting :: "externals \<Rightarrow> VoipCallsDialog \<Rightarrow> QTreeWidget" where
  "table_before_sorting ext d =
     (callTreeWidget d)\<lparr>sortingEnabled := False,
        topLevelItems := appended_and_refreshed ext d\<rparr>"

text \<open>A list of rows in which no row is less than the row before it.\<close>

fun in_order :: "('a \<Rightarrow> 'a \<Rightarrow> bool) \<Rightarrow> 'a list \<Rightarrow> bool" where
  "in_order lt [] = True"
| "in_order lt [x] = True"
| "in_order lt (x # y # ys) = (\<not> lt y x \<and> in_order lt (y # ys))"

section \<open>Example records\<close>

definition example_isup_call :: voip_calls_info where
  "example_isup_call =
     \<lparr>call_state = VOIP_STATE_OTHER 2, from_identity = ''1000'', to_identity = ''2000'',
      prot_info = \<lparr>as_isup = \<lparr>ni = 1, opc = 2, dpc = 3\<rparr>,
                   as_h323 = \<lparr>is_faststart_Setup = False, is_faststart_Proc = False,
                              is_h245Tunneling = False\<rparr>\<rparr>,
      initial_speaker = [10, 0, 0, 1], npackets = 4, protocol = VOIP_ISUP,
      protocol_name = None, call_comment = [], call_num = 0,
      start_rel_ts = \<lparr>secs = 1, nsecs = 0\<rparr>,
      stop_rel_ts = \<lparr>secs = 2, nsecs = 500000000\<rparr>\<rparr>"

definition example_h323_call :: voip_calls_info where
  "example_h323_call =
     \<lparr>call_state = VOIP_CALL_SETUP, from_identity = ''alice'', to_identity = ''bob'',
      prot_info = \<lparr>as_isup = \<lparr>ni = 0, opc = 0, dpc = 0\<rparr>,
                   as_h323 = \<lparr>is_faststart_Setup = True, is_faststart_Proc = False,
                              is_h245Tunneling = False\<rparr>\<rparr>,
      initial_speaker = [10, 0, 0, 2], npackets = 7, protocol = VOIP_H323,
      protocol_name = None, call_comment = [], call_num = 1,
      start_rel_ts = \<lparr>secs = 1, nsecs = 0\<rparr>,
      stop_rel_ts = \<lparr>secs = 3, nsecs = 0\<rparr>\<rparr>"

definition example_common_call :: voip_calls_info where
  "example_common_call =
     \<lparr>call_state = VOIP_STATE_OTHER 4, from_identity = ''carol'', to_identity = ''dave'',
      prot_info = \<lparr>as_isup = \<lparr>ni = 0, opc = 0, dpc = 0\<rparr>,
                   as_h323 = \<lparr>is_faststart_Setup = False, is_faststart_Proc = False,
                              is_h245Tunneling = False\<rparr>\<rparr>,
      initial_speaker = [10, 0, 0, 3], npackets = 9, protocol = VOIP_COMMON,
      protocol_name = Some ''RTSP'', call_comment = ''streaming'', call_num = 2,
      start_rel_ts = \<lparr>secs = 5, nsecs = 0\<rparr>,
      stop_rel_ts = \<lparr>secs = 6, nsecs = 0\<rparr>\<rparr>"

definition example_events :: "seq_analysis_item list" where
  "example_events =
     [\<lparr>fd = \<lparr>num = 1\<rparr>, conv_num = 0, display = True\<rparr>,
      \<lparr>fd = \<lparr>num = 3\<rparr>, conv_num = 1, display = True\<rparr>,
      \<lparr>fd = \<lparr>num = 4\<rparr>, conv_num = 0, display = True\<rparr>,
      \<lparr>fd = \<lparr>num = 7\<rparr>, conv_num = 1, display = True\<rparr>,
      \<lparr>fd = \<lparr>num = 9\<rparr>, conv_num = 1, display = True\<rparr>,
      \<lparr>fd = \<lparr>num = 12\<rparr>, conv_num = 0, display = True\<rparr>]"

text \<open>
  The externals of the examples: simple renderings, and for the sort of the event
  sequence a stable sort by frame number.
\<close>

definition node_frame :: "seq_analysis_item option \<Rightarrow> nat" where
  "node_frame node = (case node of None \<Rightarrow> 0 | Some e \<Rightarrow> num (fd e))"

definition example_externals :: externals where
  "example_externals =
     \<lparr>nstime_text = (\<lambda>t. QString_number (nat (secs t))),
      address_to_display = map (\<lambda>b. digit_char (b mod 10)),
      voip_protocol_name = (\<lambda>p. if p = VOIP_ISUP then ''ISUP'' else ''H.323''),
      voip_call_state_name = (\<lambda>s. if s = VOIP_CALL_SETUP then ''CALL SETUP'' else ''IN CALL''),
      sequence_analysis_list_sort =
        (\<lambda>ga. ga\<lparr>items := map_option (stable_sort (\<lambda>a b. node_frame a < node_frame b))
                                (items ga)\<rparr>)\<rparr>"

definition example_memory :: memory where
  "example_memory =
     (\<lambda>p. if p = 20 then example_h323_call
          else if p = 30 then example_common_call else example_isup_call)"

definition example_row :: "addr \<Rightarrow> bool \<Rightarrow> VoipCallsTreeWidgetItem" where
  "example_row p sel =
     drawData example_externals example_memory
       \<lparr>user_data = Some p, item_text = (\<lambda>column. []), item_selected = sel\<rparr>"

text \<open>
  A dialog with two calls and the six events above, its table in step with the calls; in
  \<open>example_dialog\<close> the row of the second call (call number 1) is selected, in
  \<open>example_dialog_unselected\<close> no row is.
\<close>

definition example_dialog :: VoipCallsDialog where
  "example_dialog =
     \<lparr>heap = example_memory,
      callsinfos = [Some 10, Some 20],
      graph_analysis = Some \<lparr>items = Some (map Some example_events)\<rparr>,
      callTreeWidget =
        \<lparr>topLevelItems = [example_row 10 False, example_row 20 True],
         sortingEnabled = True, sortColumn = 0, sortOrder = AscendingOrder\<rparr>,
      file_closed = False,
      prepare_button_enabled = True, sequence_button_enabled = True,
      player_button_enabled = False, player_button_text = ''No Audio''\<rparr>"

definition example_dialog_unselected :: VoipCallsDialog where
  "example_dialog_unselected =
     example_dialog\<lparr>callTreeWidget :=
        \<lparr>topLevelItems = [example_row 10 False, example_row 20 False],
         sortingEnabled = True, sortColumn = 0, sortOrder = AscendingOrder\<rparr>\<rparr>"

text \<open>The same dialog when the event sequence holds two events of the first call only.\<close>

definition example_dialog_other_call :: VoipCallsDialog where
  "example_dialog_other_call =
     example_dialog\<lparr>graph_analysis := Some \<lparr>items = Some (map Some
        [\<lparr>fd = \<lparr>num = 1\<rparr>, conv_num = 0, display = True\<rparr>,
         \<lparr>fd = \<lparr>num = 4\<rparr>, conv_num = 0, display = True\<rparr>])\<rparr>\<rparr>"

text \<open>
  A dialog with three calls of which the second and the third are selected, and five
  events that are not in the order of their frames.
\<close>

definition example_events_unsorted :: "seq_analysis_item list" where
  "example_events_unsorted =
     [\<lparr>fd = \<lparr>num = 4\<rparr>, conv_num = 0, display = True\<rparr>,
      \<lparr>fd = \<lparr>num = 1\<rparr>, conv_num = 0, display = False\<rparr>,
      \<lparr>fd = \<lparr>num = 3\<rparr>, conv_num = 2, display = False\<rparr>,
      \<lparr>fd = \<lparr>num = 2\<rparr>, conv_num = 1, display = True\<rparr>,
      \<lparr>fd = \<lparr>num = 5\<rparr>, conv_num = 2, display = True\<rparr>]"

definition example_dialog_two_selected :: VoipCallsDialog where
  "example_dialog_two_selected =
     \<lparr>heap = example_memory,
      callsinfos = [Some 10, Some 20, Some 30],
      graph_analysis = Some \<lparr>items = Some (map Some example_events_unsorted)\<rparr>,
      callTreeWidget =
        \<lparr>topLevelItems = [example_row 10 False, example_row 20 True, example_row 30 True],
         sortingEnabled = True, sortColumn = 0, sortOrder = AscendingOrder\<rparr>,
      file_closed = False,
      prepare_button_enabled = True, sequence_button_enabled = True,
      player_button_enabled = False, player_button_text = ''No Audio''\<rparr>"

text \<open>The five events in the order of their frames.\<close>

definition example_events_reordered :: "seq_analysis_item list" where
  "example_events_reordered =
     [\<lparr>fd = \<lparr>num = 1\<rparr>, conv_num = 0, display = False\<rparr>,
      \<lparr>fd = \<lparr>num = 2\<rparr>, conv_num = 1, display = True\<rparr>,
      \<lparr>fd = \<lparr>num = 3\<rparr>, conv_num = 2, display = False\<rparr>,
      \<lparr>fd = \<lparr>num = 4\<rparr>, conv_num = 0, display = True\<rparr>,
      \<lparr>fd = \<lparr>num = 5\<rparr>, conv_num = 2, display = True\<rparr>]"

text \<open>The dialog with the two selected calls after the capture file has been closed.\<close>

definition example_dialog_closed :: VoipCallsDialog where
  "example_dialog_closed = example_dialog_two_selected\<lparr>file_closed := True\<rparr>"

text \<open>
  A dialog whose store has a third call that the table does not show yet; the table is
  sorted by the number of packets, largest first.
\<close>

definition example_dialog_one_missing :: VoipCallsDialog where
  "example_dialog_one_missing =
     \<lparr>heap = example_memory,
      callsinfos = [Some 10, Some 20, Some 30],
      graph_analysis = Some \<lparr>items = Some (map Some example_events)\<rparr>,
      callTreeWidget =
        \<lparr>topLevelItems = [example_row 10 False, example_row 20 True],
         sortingEnabled = True, sortColumn = 6, sortOrder = DescendingOrder\<rparr>,
      file_closed = False,
      prepare_button_enabled = True, sequence_button_enabled = True,
      player_button_enabled = False, player_button_text = ''No Audio''\<rparr>"

section \<open>Facts about the string functions\<close>

lemmas col_defs =
  start_time_col_def stop_time_col_def initial_speaker_col_def from_col_def to_col_def
  protocol_col_def packets_col_def state_col_def comments_col_def

lemma digit_char_not_percent: "CHR ''%'' \<noteq> digit_char d"
  by (simp add: digit_char_def)

lemma QString_number_no_percent: "CHR ''%'' \<notin> set (QString_number n)"
proof (induction n rule: QString_number.induct)
  case (1 n)
  show ?case
  proof (cases "n < 10")
    case True
    then show ?thesis
      by (simp add: QString_number.simps [of n] digit_char_not_percent)
  next
    case False
    with "1" show ?thesis
      by (simp add: QString_number.simps [of n] digit_char_not_percent)
  qed
qed

lemma findArgEscapes_text_prefix:
  "CHR ''%'' \<notin> set p \<Longrightarrow> findArgEscapes (p @ t) = map Text p @ findArgEscapes t"
  by (induction p) auto

lemma escape_numbers_text_prefix:
  "escape_numbers (map Text p @ segs) = escape_numbers segs"
  by (induction p) auto

lemma replaceArgEscapes_text_prefix:
  "replaceArgEscapes m a (map Text p @ segs) = p @ replaceArgEscapes m a segs"
  by (induction p) auto

lemma QString_arg_prefix:
  "CHR ''%'' \<notin> set p \<Longrightarrow> QString_arg (p @ t) a = p @ QString_arg t a"
  by (simp add: QString_arg_def Let_def findArgEscapes_text_prefix
      escape_numbers_text_prefix replaceArgEscapes_text_prefix)

lemmas escape_defs = escape_at_def escape_digits_def digitValue_def

lemma isup_format_1: "QString_arg ''%1-%2 %3 %4-%5'' a = a @ ''-%2 %3 %4-%5''"
  by (simp add: QString_arg_def escape_defs)

lemma isup_format_2: "QString_arg ''-%2 %3 %4-%5'' a = ''-'' @ a @ '' %3 %4-%5''"
  by (simp add: QString_arg_def escape_defs)

lemma isup_format_3: "QString_arg '' %3 %4-%5'' a = '' '' @ a @ '' %4-%5''"
  by (simp add: QString_arg_def escape_defs)

lemma isup_format_4: "QString_arg '' %4-%5'' a = '' '' @ a @ ''-%5''"
  by (simp add: QString_arg_def escape_defs)

lemma isup_format_5: "QString_arg ''-%5'' a = ''-'' @ a"
  by (simp add: QString_arg_def escape_defs)

lemma isup_format:
  assumes na: "CHR ''%'' \<notin> set a" and nb: "CHR ''%'' \<notin> set b"
    and nr: "CHR ''%'' \<notin> set r"
  shows "QString_arg (QString_arg (QString_arg (QString_arg (QString_arg
           ''%1-%2 %3 %4-%5'' a) b) r) a) c =
         a @ ''-'' @ b @ '' '' @ r @ '' '' @ a @ ''-'' @ c"
proof -
  have s1: "QString_arg ''%1-%2 %3 %4-%5'' a = a @ ''-%2 %3 %4-%5''"
    by (rule isup_format_1)
  have s2: "QString_arg (a @ ''-%2 %3 %4-%5'') b = (a @ ''-'' @ b) @ '' %3 %4-%5''"
    using na by (simp add: QString_arg_prefix isup_format_2)
  have s3: "QString_arg ((a @ ''-'' @ b) @ '' %3 %4-%5'') r
      = (a @ ''-'' @ b @ '' '' @ r) @ '' %4-%5''"
    using na nb QString_arg_prefix [of "a @ ''-'' @ b" "'' %3 %4-%5''" r]
    by (simp add: isup_format_3)
  have s4: "QString_arg ((a @ ''-'' @ b @ '' '' @ r) @ '' %4-%5'') a
      = (a @ ''-'' @ b @ '' '' @ r @ '' '' @ a) @ ''-%5''"
    using na nb nr QString_arg_prefix [of "a @ ''-'' @ b @ '' '' @ r" "'' %4-%5''" a]
    by (simp add: isup_format_4)
  have s5: "QString_arg ((a @ ''-'' @ b @ '' '' @ r @ '' '' @ a) @ ''-%5'') c
      = a @ ''-'' @ b @ '' '' @ r @ '' '' @ a @ ''-'' @ c"
    using na nb nr QString_arg_prefix [of "a @ ''-'' @ b @ '' '' @ r @ '' '' @ a" "''-%5''" c]
    by (simp add: isup_format_5)
  show ?thesis
    by (simp only: s1 s2 s3 s4 s5)
qed

lemma h323_format:
  assumes na: "CHR ''%'' \<notin> set a"
  shows "QString_arg (QString_arg (tr ''Tunneling: %1  Fast Start: %2'') a) b =
         ''Tunneling: '' @ a @ ''  Fast Start: '' @ b"
proof -
  have s1: "QString_arg (tr ''Tunneling: %1  Fast Start: %2'') a
      = (''Tunneling: '' @ a) @ ''  Fast Start: %2''"
    by (simp add: QString_arg_def escape_defs tr_def)
  have s2: "QString_arg ''  Fast Start: %2'' b = ''  Fast Start: '' @ b"
    by (simp add: QString_arg_def escape_defs)
  have "CHR ''%'' \<notin> set (''Tunneling: '' @ a)"
    using na by simp
  then show ?thesis
    using QString_arg_prefix [of "''Tunneling: '' @ a" "''  Fast Start: %2''" b]
    by (simp add: s1 s2)
qed

lemma drawData_comments:
  "user_data item = Some p \<Longrightarrow>
   item_text (drawData ext mem item) comments_col = call_comments (mem p)"
  by (simp add: drawData_def setText_def Let_def)

section \<open>Facts about the filter loop\<close>

lemma filter_format:
  assumes "CHR ''%'' \<notin> set p"
  shows "QString_arg (QString_arg ''%1frame.number == %2'' p) n = p @ ''frame.number == '' @ n"
proof -
  have s1: "QString_arg ''%1frame.number == %2'' p = p @ ''frame.number == %2''"
    by (simp add: QString_arg_def escape_defs)
  have s2: "QString_arg ''frame.number == %2'' n = ''frame.number == '' @ n"
    by (simp add: QString_arg_def escape_defs)
  show ?thesis
    using assms by (simp add: s1 s2 QString_arg_prefix)
qed

lemma join_or_Cons: "join_or (c # cs) = c @ (if cs = [] then [] else '' or '' @ join_or cs)"
  by (cases cs) simp_all

lemma data_until_null_Some: "data_until_null (map Some xs) = xs"
  by (induction xs) simp_all

lemma data_until_null_cut: "data_until_null (map Some xs @ None # rest) = xs"
  by (induction xs) simp_all

lemma prepareFilter_loop_join:
  "CHR ''%'' \<notin> set p \<Longrightarrow>
   prepareFilter_loop sel nodes p acc =
     acc @ (if filter (\<lambda>e. conv_num e \<in> sel) (data_until_null nodes) = [] then []
            else p @ compileFilter sel (data_until_null nodes))"
proof (induction sel nodes p acc rule: prepareFilter_loop.induct)
  case (1 sel p acc)
  then show ?case by simp
next
  case (2 sel rest p acc)
  then show ?case by simp
next
  case (3 sel ga_item rest p acc)
  have or_ok: "CHR ''%'' \<notin> set '' or ''" by simp
  show ?case
  proof (cases "conv_num ga_item \<in> sel")
    case True
    with 3 or_ok show ?thesis
      by (simp add: filter_format compileFilter_def join_or_Cons clause_def)
  next
    case False
    with 3 show ?thesis
      by (simp add: compileFilter_def)
  qed
qed

lemma prepareFilter_loop_start:
  "prepareFilter_loop sel nodes [] [] = compileFilter sel (data_until_null nodes)"
  by (simp add: prepareFilter_loop_join compileFilter_def)

lemma selected_call_nums_Inr:
  "\<forall>ti \<in> set tis. user_data ti \<noteq> None \<Longrightarrow>
   selected_call_nums mem tis acc =
     Inr (acc \<union> set (map (\<lambda>p. call_num (mem p)) (List.map_filter user_data tis)))"
  by (induction tis arbitrary: acc) (auto simp: List.map_filter_simps)

lemma prepareFilter_emits:
  assumes "selectedItems (callTreeWidget d) \<noteq> []"
    and "\<forall>ti \<in> set (selectedItems (callTreeWidget d)). user_data ti \<noteq> None"
    and "graph_analysis d = Some ga" and "items ga = Some nodes"
  shows "prepareFilter d =
           Inr [updateFilter (compileFilter (selected_call_ids d) (data_until_null nodes))]"
  using assms
  by (simp add: prepareFilter_def selected_call_nums_Inr selected_call_ids_def
      g_queue_peek_nth_link_def prepareFilter_loop_start)

lemma join_or_starts: "cs \<noteq> [] \<Longrightarrow> \<exists>rest. join_or cs = hd cs @ rest"
  by (cases cs) (simp_all add: join_or_Cons)

lemma join_or_ends: "cs \<noteq> [] \<Longrightarrow> \<exists>front. join_or cs = front @ last cs"
proof (induction cs rule: join_or.induct)
  case 1
  then show ?case by simp
next
  case (2 c)
  then show ?case by simp
next
  case (3 c c' cs)
  then obtain front where "join_or (c' # cs) = front @ last (c' # cs)"
    by auto
  then have "join_or (c # c' # cs) = (c @ '' or '' @ front) @ last (c # c' # cs)"
    by simp
  then show ?case by blast
qed

lemma prepareFilter_nothing_selected:
  "selectedItems (callTreeWidget d) = [] \<Longrightarrow> prepareFilter d = Inr []"
  by (simp add: prepareFilter_def)

section \<open>Facts about the loops of updateCalls\<close>

lemma add_missing_items_length:
  "length (add_missing_items ext mem nodes tree) = length (data_until_null nodes)"
  by (induction ext mem nodes tree rule: add_missing_items.induct) (simp_all add: Let_def)

lemma add_missing_items_last:
  "last (tree # add_missing_items ext mem nodes tree) =
     tree\<lparr>topLevelItems := topLevelItems tree @
       map (\<lambda>p. new_row ext mem (Some p)) (data_until_null nodes)\<rparr>"
  by (induction ext mem nodes tree rule: add_missing_items.induct)
    (simp_all add: Let_def new_VoipCallsTreeWidgetItem_def)

lemma add_missing_items_sorting:
  "t \<in> set (add_missing_items ext mem nodes tree) \<Longrightarrow> sortingEnabled t = sortingEnabled tree"
  by (induction ext mem nodes tree rule: add_missing_items.induct)
    (auto simp: Let_def new_VoipCallsTreeWidgetItem_def)

section \<open>Facts about the comparator\<close>

lemma nstime_cmp_less: "(nstime_cmp a b < 0) = (nstime_value a < nstime_value b)"
  by (simp add: nstime_cmp_def)

lemma cmp_address_same: "cmp_address a a = 0"
  by (induction a) simp_all

lemma cmp_address_asym: "cmp_address a b < 0 \<Longrightarrow> \<not> cmp_address b a < 0"
  by (induction a b rule: cmp_address.induct) (auto split: if_splits)

lemma string_less_same: "\<not> string_less a a"
  by (induction a) simp_all

lemma string_less_asym: "string_less a b \<Longrightarrow> \<not> string_less b a"
  by (induction a b rule: string_less.induct) (auto split: if_splits)


lemma cmp_address_Cons_less:
  "(cmp_address (x # xs) (y # ys) < 0) = (x < y \<or> (x = y \<and> cmp_address xs ys < 0))"
  by auto

lemma cmp_address_trans:
  "cmp_address a b < 0 \<Longrightarrow> cmp_address b c < 0 \<Longrightarrow> cmp_address a c < 0"
proof (induction a b arbitrary: c rule: cmp_address.induct)
  case 1
  then show ?case by simp
next
  case (2 y ys)
  then show ?case by (cases c) simp_all
next
  case (3 x xs)
  then show ?case by simp
next
  case (4 x xs y ys)
  from "4.prems"(2) obtain z zs where c: "c = z # zs"
    by (cases c) simp_all
  from "4.prems"(1) have ab: "x < y \<or> (x = y \<and> cmp_address xs ys < 0)"
    by (simp only: cmp_address_Cons_less)
  from "4.prems"(2) have bc: "y < z \<or> (y = z \<and> cmp_address ys zs < 0)"
    unfolding c by (simp only: cmp_address_Cons_less)
  show ?case
  proof (cases "x = y \<and> y = z")
    case True
    with ab bc have "cmp_address xs ys < 0" and "cmp_address ys zs < 0"
      by simp_all
    with True "4.IH" [of zs] have "cmp_address xs zs < 0"
      by simp
    with True show ?thesis
      unfolding c by (simp only: cmp_address_Cons_less) simp
  next
    case False
    with ab bc have "x < z"
      by auto
    then show ?thesis
      unfolding c by (simp only: cmp_address_Cons_less) simp
  qed
qed

lemma string_less_Cons:
  "string_less (x # xs) (y # ys) =
     ((of_char x :: nat) < of_char y \<or> (x = y \<and> string_less xs ys))"
  by auto

lemma string_less_trans: "string_less a b \<Longrightarrow> string_less b c \<Longrightarrow> string_less a c"
proof (induction a b arbitrary: c rule: string_less.induct)
  case 1
  then show ?case by simp
next
  case (2 y ys)
  then show ?case by (cases c) simp_all
next
  case (3 x xs)
  then show ?case by simp
next
  case (4 x xs y ys)
  from "4.prems"(2) obtain z zs where c: "c = z # zs"
    by (cases c) simp_all
  from "4.prems"(1) have ab: "(of_char x :: nat) < of_char y \<or> (x = y \<and> string_less xs ys)"
    by (simp only: string_less_Cons)
  from "4.prems"(2) have bc: "(of_char y :: nat) < of_char z \<or> (y = z \<and> string_less ys zs)"
    unfolding c by (simp only: string_less_Cons)
  show ?case
  proof (cases "x = y \<and> y = z")
    case True
    with ab bc have "string_less xs ys" and "string_less ys zs"
      by simp_all
    with True "4.IH" [of zs] have "string_less xs zs"
      by simp
    with True show ?thesis
      unfolding c by (simp only: string_less_Cons) simp
  next
    case False
    with ab bc have "(of_char x :: nat) < of_char z"
      by auto
    then show ?thesis
      unfolding c by (simp only: string_less_Cons) simp
  qed
qed


lemma operator_less_None:
  "user_data a = None \<or> user_data b = None \<Longrightarrow> \<not> operator_less mem column a b"
  by (auto simp: operator_less_def split: option.splits)

lemma operator_less_Some:
  "user_data a = Some p \<Longrightarrow> user_data b = Some q \<Longrightarrow>
   operator_less mem column a b =
     (if column = start_time_col
      then nstime_value (start_rel_ts (mem p)) < nstime_value (start_rel_ts (mem q))
      else if column = stop_time_col
      then nstime_value (stop_rel_ts (mem p)) < nstime_value (stop_rel_ts (mem q))
      else if column = initial_speaker_col
      then cmp_address (initial_speaker (mem p)) (initial_speaker (mem q)) < 0
      else if column = packets_col
      then npackets (mem p) < npackets (mem q)
      else string_less (item_text a column) (item_text b column))"
  by (simp add: operator_less_def Let_def nstime_cmp_less QTreeWidgetItem_less_def)

lemma operator_less_irrefl: "\<not> operator_less mem column a a"
proof (cases "user_data a")
  case None
  then show ?thesis by (simp add: operator_less_None)
next
  case (Some p)
  then show ?thesis
    by (simp add: operator_less_Some [OF Some Some] cmp_address_same string_less_same)
qed

lemma operator_less_asym:
  assumes "operator_less mem column a b"
  shows "\<not> operator_less mem column b a"
proof -
  from assms obtain p q where p: "user_data a = Some p" and q: "user_data b = Some q"
    using operator_less_None [of a b mem column] by (cases "user_data a"; cases "user_data b") auto
  from assms show ?thesis
    unfolding operator_less_Some [OF p q] operator_less_Some [OF q p]
    using cmp_address_asym string_less_asym
    by (auto split: if_splits)
qed

lemma operator_less_trans:
  assumes "operator_less mem column a b" and "operator_less mem column b c"
  shows "operator_less mem column a c"
proof -
  from assms(1) obtain p q where p: "user_data a = Some p" and q: "user_data b = Some q"
    using operator_less_None [of a b mem column] by (cases "user_data a"; cases "user_data b") auto
  from assms(2) obtain r where r: "user_data c = Some r"
    using operator_less_None [of b c mem column] by (cases "user_data c") auto
  from assms show ?thesis
    unfolding operator_less_Some [OF p q] operator_less_Some [OF q r] operator_less_Some [OF p r]
    using cmp_address_trans string_less_trans
    by (auto split: if_splits)
qed

section \<open>Facts about showSequence\<close>

lemma showSequence_loop_events:
  "showSequence_loop sel (map Some events) =
     map Some (map (\<lambda>e. e\<lparr>display := conv_num e \<in> sel\<rparr>) events)"
  by (induction events) simp_all

lemma showSequence_file_closed: "file_closed d \<Longrightarrow> showSequence ext d = Inr d"
  by (simp add: showSequence_def)

lemma showSequence_runs:
  assumes "\<not> file_closed d"
    and "\<forall>ti \<in> set (selectedItems (callTreeWidget d)). user_data ti \<noteq> None"
    and "graph_analysis d = Some ga"
  shows "showSequence ext d =
     Inr (d\<lparr>graph_analysis := Some ((sequence_analysis_list_sort ext ga)\<lparr>items :=
            map_option (showSequence_loop (selected_call_ids d))
              (items (sequence_analysis_list_sort ext ga))\<rparr>)\<rparr>)"
  using assms
  by (simp add: showSequence_def selected_call_nums_Inr selected_call_ids_def Let_def)

section \<open>Facts about the loops and the sort of the table\<close>

lemma fill_in_the_tree_length:
  "length (fill_in_the_tree ext mem visited iter tree) = length iter"
  by (induction iter arbitrary: visited tree) (simp_all add: Let_def)

lemma fill_in_the_tree_sorting:
  "list_all (\<lambda>t. sortingEnabled t = sortingEnabled tree)
     (fill_in_the_tree ext mem visited iter tree)"
proof (induction iter arbitrary: visited tree)
  case Nil
  then show ?case by simp
next
  case (Cons vcti iter)
  from Cons.IH [where visited = "visited @ [drawData ext mem vcti]"
      and tree = "tree\<lparr>topLevelItems := visited @ drawData ext mem vcti # iter\<rparr>"]
  show ?case
    by (simp add: Let_def)
qed

lemma fill_in_the_tree_last:
  "last (tree\<lparr>topLevelItems := visited @ iter\<rparr> # fill_in_the_tree ext mem visited iter tree) =
     tree\<lparr>topLevelItems := visited @ map (drawData ext mem) iter\<rparr>"
proof (induction iter arbitrary: visited tree)
  case Nil
  then show ?case by simp
next
  case (Cons vcti iter)
  define tree' where "tree' = tree\<lparr>topLevelItems := visited @ drawData ext mem vcti # iter\<rparr>"
  have "last (tree\<lparr>topLevelItems := visited @ vcti # iter\<rparr> #
          fill_in_the_tree ext mem visited (vcti # iter) tree) =
        last (tree' # fill_in_the_tree ext mem (visited @ [drawData ext mem vcti]) iter tree')"
    by (simp add: Let_def tree'_def)
  also have "tree' = tree'\<lparr>topLevelItems := (visited @ [drawData ext mem vcti]) @ iter\<rparr>"
    by (simp add: tree'_def)
  also have "last (tree'\<lparr>topLevelItems := (visited @ [drawData ext mem vcti]) @ iter\<rparr> #
          fill_in_the_tree ext mem (visited @ [drawData ext mem vcti]) iter
            (tree'\<lparr>topLevelItems := (visited @ [drawData ext mem vcti]) @ iter\<rparr>)) =
        tree'\<lparr>topLevelItems := (visited @ [drawData ext mem vcti]) @ map (drawData ext mem) iter\<rparr>"
    using Cons.IH [where visited = "visited @ [drawData ext mem vcti]" and tree = tree']
    by (simp add: tree'_def)
  finally show ?case
    by (simp add: tree'_def)
qed


lemma add_missing_items_sorting_all:
  "list_all (\<lambda>t. sortingEnabled t = sortingEnabled tree) (add_missing_items ext mem nodes tree)"
proof (induction ext mem nodes tree rule: add_missing_items.induct)
  case (1 ext mem tree)
  then show ?case by simp
next
  case (2 ext mem cur_call tree)
  then show ?case by simp
next
  case (3 ext mem call_info cur_call tree)
  then show ?case
    by (simp add: Let_def new_VoipCallsTreeWidgetItem_def)
qed

lemma insert_row_set: "set (insert_row lt x xs) = insert x (set xs)"
  by (induction xs) auto

lemma stable_sort_set: "set (stable_sort lt xs) = set xs"
  by (induction xs) (simp_all add: insert_row_set)

lemma insert_row_length: "length (insert_row lt x xs) = Suc (length xs)"
  by (induction xs) simp_all

lemma stable_sort_length: "length (stable_sort lt xs) = length xs"
  by (induction xs) (simp_all add: insert_row_length)

lemma in_order_Cons:
  "in_order lt (y # zs) = (zs = [] \<or> (\<not> lt (hd zs) y \<and> in_order lt zs))"
  by (cases zs) simp_all

lemma insert_row_hd:
  "hd (insert_row lt x ys) = (if ys \<noteq> [] \<and> lt (hd ys) x then hd ys else x)"
  by (cases ys) simp_all

lemma insert_row_not_Nil: "insert_row lt x ys \<noteq> []"
  by (cases ys) simp_all

lemma in_order_insert_row:
  assumes asym: "\<And>a b. lt a b \<Longrightarrow> \<not> lt b a"
  shows "in_order lt xs \<Longrightarrow> in_order lt (insert_row lt x xs)"
proof (induction xs)
  case Nil
  then show ?case by simp
next
  case (Cons y ys)
  show ?case
  proof (cases "lt y x")
    case False
    with Cons.prems show ?thesis by simp
  next
    case True
    from Cons.prems have ys: "in_order lt ys" and hd_ys: "ys = [] \<or> \<not> lt (hd ys) y"
      by (auto simp: in_order_Cons)
    from True asym have "\<not> lt x y"
      by blast
    with hd_ys have "\<not> lt (hd (insert_row lt x ys)) y"
      by (auto simp: insert_row_hd)
    with Cons.IH [OF ys] True show ?thesis
      by (simp add: in_order_Cons insert_row_not_Nil)
  qed
qed

lemma in_order_stable_sort:
  assumes asym: "\<And>a b. lt a b \<Longrightarrow> \<not> lt b a"
  shows "in_order lt (stable_sort lt xs)"
  by (induction xs) (simp_all add: in_order_insert_row [OF asym])

lemma stable_sort_in_order: "in_order lt xs \<Longrightarrow> stable_sort lt xs = xs"
proof (induction xs)
  case Nil
  then show ?case by simp
next
  case (Cons x xs)
  then have "in_order lt xs" and "xs = [] \<or> \<not> lt (hd xs) x"
    by (auto simp: in_order_Cons)
  with Cons.IH show ?case
    by (cases xs) simp_all
qed

lemma stable_sort_idem:
  assumes asym: "\<And>a b. lt a b \<Longrightarrow> \<not> lt b a"
  shows "stable_sort lt (stable_sort lt xs) = stable_sort lt xs"
  by (rule stable_sort_in_order) (rule in_order_stable_sort [OF asym])

lemma item_compare_asym:
  "item_compare mem column order a b \<Longrightarrow> \<not> item_compare mem column order b a"
  by (cases order) (auto simp: item_compare_def dest: operator_less_asym)

lemma drawData_user_data: "user_data (drawData ext mem item) = user_data item"
  by (simp add: drawData_def setText_def Let_def split: option.splits)

lemma drawData_idem: "drawData ext mem (drawData ext mem item) = drawData ext mem item"
proof (cases "user_data item")
  case None
  then show ?thesis by (simp add: drawData_def)
next
  case (Some p)
  then show ?thesis
    by (simp add: drawData_def setText_def Let_def col_defs fun_upd_twist)
qed

section \<open>Facts about updateCalls\<close>

lemma last_append_states: "last (x # xs @ ys) = last (last (x # xs) # ys)"
  by (cases ys) simp_all

lemma after_adding:
  "last ((callTreeWidget d)\<lparr>sortingEnabled := False\<rparr> #
         add_missing_items ext (heap d)
           (drop (topLevelItemCount (callTreeWidget d)) (callsinfos d))
           ((callTreeWidget d)\<lparr>sortingEnabled := False\<rparr>)) =
   (callTreeWidget d)\<lparr>sortingEnabled := False,
      topLevelItems := topLevelItems (callTreeWidget d) @
        map (\<lambda>p. new_row ext (heap d) (Some p)) (calls_since_last_refresh d)\<rparr>"
  by (simp add: add_missing_items_last calls_since_last_refresh_def del: last.simps)

lemma after_filling:
  "last (tree # fill_in_the_tree ext mem [] (topLevelItems tree) tree) =
     tree\<lparr>topLevelItems := map (drawData ext mem) (topLevelItems tree)\<rparr>"
  using fill_in_the_tree_last
      [where tree = tree and visited = "[]" and iter = "topLevelItems tree" and ext = ext
        and mem = mem]
  by simp

lemma updateCalls_states_eq:
  "updateCalls_states ext d =
     map (\<lambda>tree. d\<lparr>callTreeWidget := tree\<rparr>)
       ([(callTreeWidget d)\<lparr>sortingEnabled := False\<rparr>] @
        add_missing_items ext (heap d)
           (drop (topLevelItemCount (callTreeWidget d)) (callsinfos d))
           ((callTreeWidget d)\<lparr>sortingEnabled := False\<rparr>) @
        fill_in_the_tree ext (heap d) []
           (topLevelItems (callTreeWidget d) @
              map (\<lambda>p. new_row ext (heap d) (Some p)) (calls_since_last_refresh d))
           ((callTreeWidget d)\<lparr>sortingEnabled := False,
              topLevelItems := topLevelItems (callTreeWidget d) @
                map (\<lambda>p. new_row ext (heap d) (Some p)) (calls_since_last_refresh d)\<rparr>)) @
     [d\<lparr>callTreeWidget := setSortingEnabled (heap d) True (table_before_sorting ext d)\<rparr>,
      updateWidgets (d\<lparr>callTreeWidget := setSortingEnabled (heap d) True (table_before_sorting ext d)\<rparr>)]"
  unfolding updateCalls_states_def Let_def g_queue_peek_nth_link_def setSortingEnabled_def
    option.case if_False after_adding after_filling
  by (simp add: table_before_sorting_def appended_and_refreshed_def setSortingEnabled_def)


lemma updateCalls_eq:
  "updateCalls ext d =
     updateWidgets
       (d\<lparr>callTreeWidget := setSortingEnabled (heap d) True (table_before_sorting ext d)\<rparr>)"
  by (simp add: updateCalls_def updateCalls_states_eq)

lemma updateWidgets_tree: "callTreeWidget (updateWidgets d) = callTreeWidget d"
  by (simp add: updateWidgets_def Let_def)

lemma data_until_null_rest: "data_until_null (drop (length (data_until_null xs)) xs) = []"
  by (induction xs rule: data_until_null.induct) simp_all

lemma updateWidgets_idem: "updateWidgets (updateWidgets d) = updateWidgets d"
  by (simp add: updateWidgets_def Let_def)

lemma updateWidgets_fields:
  "heap (updateWidgets d) = heap d" "callsinfos (updateWidgets d) = callsinfos d"
  by (simp_all add: updateWidgets_def Let_def)

lemma appended_and_refreshed_drawn:
  "row \<in> set (appended_and_refreshed ext d) \<Longrightarrow> drawData ext (heap d) row = row"
  by (auto simp: appended_and_refreshed_def drawData_idem)

lemma appended_and_refreshed_length:
  "length (appended_and_refreshed ext d) =
     topLevelItemCount (callTreeWidget d) + length (calls_since_last_refresh d)"
  by (simp add: appended_and_refreshed_def topLevelItemCount_def)

section \<open>Facts about the examples\<close>

lemma example_selected: "selectedItems (callTreeWidget example_dialog) = [example_row 20 True]"
  by (simp add: example_dialog_def selectedItems_def example_row_def drawData_def setText_def Let_def)

lemma example_row_data: "user_data (example_row p s) = Some p"
  by (simp add: example_row_def drawData_def setText_def Let_def)

lemma example_heap: "heap example_dialog = example_memory"
  by (simp add: example_dialog_def)

lemma example_selected_ids: "selected_call_ids example_dialog = {1}"
  by (simp add: selected_call_ids_def example_selected List.map_filter_simps example_row_data
     example_heap example_memory_def example_h323_call_def)

lemma example_unselected: "selectedItems (callTreeWidget example_dialog_unselected) = []"
  by (simp add: example_dialog_unselected_def selectedItems_def example_row_def drawData_def
      setText_def Let_def)

lemma example_other_call_selected:
  "selectedItems (callTreeWidget example_dialog_other_call) = [example_row 20 True]"
  by (simp add: example_dialog_other_call_def example_selected)

lemma example_other_call_heap: "heap example_dialog_other_call = example_memory"
  by (simp add: example_dialog_other_call_def example_heap)

lemma example_other_call_ids: "selected_call_ids example_dialog_other_call = {1}"
  by (simp add: selected_call_ids_def example_other_call_selected List.map_filter_simps
      example_row_data example_other_call_heap example_memory_def example_h323_call_def)

lemma example_two_selected:
  "selectedItems (callTreeWidget example_dialog_two_selected) =
     [example_row 20 True, example_row 30 True]"
  by (simp add: example_dialog_two_selected_def selectedItems_def example_row_def drawData_def
      setText_def Let_def)

lemma example_two_selected_ids: "selected_call_ids example_dialog_two_selected = {1, 2}"
proof -
  have "heap example_dialog_two_selected = example_memory"
    by (simp add: example_dialog_two_selected_def)
  then show ?thesis
    by (simp add: selected_call_ids_def example_two_selected List.map_filter_simps
        example_row_data example_memory_def example_h323_call_def example_common_call_def)
qed

lemma example_closed_ids: "selected_call_ids example_dialog_closed = {1, 2}"
proof -
  have "selected_call_ids example_dialog_closed = selected_call_ids example_dialog_two_selected"
    by (simp add: selected_call_ids_def example_dialog_closed_def)
  then show ?thesis
    by (simp add: example_two_selected_ids)
qed

lemma example_sort:
  "items (sequence_analysis_list_sort example_externals
      \<lparr>items = Some (map Some example_events_unsorted)\<rparr>) =
   Some (map Some example_events_reordered)"
  by (simp add: example_externals_def example_events_unsorted_def example_events_reordered_def
      node_frame_def)

lemma example_packets_less:
  "operator_less example_memory 6 (example_row p s) (example_row q t) =
     (npackets (example_memory p) < npackets (example_memory q))"
  by (simp add: operator_less_Some [of "example_row p s" p "example_row q t" q]
      example_row_data col_defs)

lemma example_row_drawn:
  "drawData example_externals example_memory (example_row p s) = example_row p s"
  by (simp add: example_row_def drawData_idem)

lemma example_new_row: "new_row example_externals example_memory (Some p) = example_row p False"
  by (simp add: new_row_def example_row_def)

lemma example_one_missing_calls: "calls_since_last_refresh example_dialog_one_missing = [30]"
  by (simp add: calls_since_last_refresh_def example_dialog_one_missing_def
      topLevelItemCount_def)

lemma example_one_missing_rows:
  "appended_and_refreshed example_externals example_dialog_one_missing =
     [example_row 10 False, example_row 20 True, example_row 30 False]"
proof -
  have "heap example_dialog_one_missing = example_memory"
    and "topLevelItems (callTreeWidget example_dialog_one_missing) =
      [example_row 10 False, example_row 20 True]"
    by (simp_all add: example_dialog_one_missing_def)
  then show ?thesis
    by (simp add: appended_and_refreshed_def example_one_missing_calls example_new_row
        example_row_drawn)
qed

section \<open>The comment of a call\<close>

text \<open>
  C3. For a call whose protocol is ISUP the comment is the network indicator, a hyphen and
  the origin point code, then the rightwards arrow between two spaces, then the network
  indicator, a hyphen and the destination point code, each number in decimal; it is the text
  \<open>drawData\<close> puts into the comments column of the call's row. With network indicator 1,
  origin point code 2 and destination point code 3 the comment is \<open>1-2\<close>, the arrow,
  \<open>1-3\<close>.
\<close>

theorem isup_comment:
  assumes "protocol call_info = VOIP_ISUP"
  shows "call_comments call_info =
           QString_number (ni (as_isup (prot_info call_info))) @ ''-'' @
           QString_number (opc (as_isup (prot_info call_info))) @ '' '' @
           UTF8_RIGHTWARDS_ARROW @ '' '' @
           QString_number (ni (as_isup (prot_info call_info))) @ ''-'' @
           QString_number (dpc (as_isup (prot_info call_info))) \<and>
         (ni (as_isup (prot_info call_info)) = 1 \<and>
          opc (as_isup (prot_info call_info)) = 2 \<and>
          dpc (as_isup (prot_info call_info)) = 3 \<longrightarrow>
          call_comments call_info = ''1-2 '' @ UTF8_RIGHTWARDS_ARROW @ '' 1-3'') \<and>
         (\<forall>ext mem item p. user_data item = Some p \<and> mem p = call_info \<longrightarrow>
            item_text (drawData ext mem item) comments_col = call_comments call_info)"
proof -
  have nr: "CHR ''%'' \<notin> set UTF8_RIGHTWARDS_ARROW"
    by (simp add: UTF8_RIGHTWARDS_ARROW_def)
  have general: "call_comments call_info =
           QString_number (ni (as_isup (prot_info call_info))) @ ''-'' @
           QString_number (opc (as_isup (prot_info call_info))) @ '' '' @
           UTF8_RIGHTWARDS_ARROW @ '' '' @
           QString_number (ni (as_isup (prot_info call_info))) @ ''-'' @
           QString_number (dpc (as_isup (prot_info call_info)))"
    using assms
    by (simp add: call_comments_def Let_def isup_format QString_number_no_percent nr)
  have example: "call_comments call_info = ''1-2 '' @ UTF8_RIGHTWARDS_ARROW @ '' 1-3''"
    if "ni (as_isup (prot_info call_info)) = 1 \<and> opc (as_isup (prot_info call_info)) = 2 \<and>
        dpc (as_isup (prot_info call_info)) = 3"
    using that by (simp add: general QString_number.simps digit_char_def)
  have row: "item_text (drawData ext mem item) comments_col = call_comments call_info"
    if "user_data item = Some p \<and> mem p = call_info" for ext mem item p
    using that drawData_comments [of item p ext mem] by simp
  from general example row show ?thesis
    by blast
qed

theorem isup_comment_witness:
  "protocol example_isup_call = VOIP_ISUP \<and>
   call_comments example_isup_call =
     [CHR ''1'', CHR ''-'', CHR ''2'', CHR '' '', CHR 0xE2, CHR 0x86, CHR 0x92,
      CHR '' '', CHR ''1'', CHR ''-'', CHR ''3'']"
proof -
  have p: "protocol example_isup_call = VOIP_ISUP"
    by (simp add: example_isup_call_def)
  have f: "ni (as_isup (prot_info example_isup_call)) = 1 \<and>
           opc (as_isup (prot_info example_isup_call)) = 2 \<and>
           dpc (as_isup (prot_info example_isup_call)) = 3"
    by (simp add: example_isup_call_def)
  from isup_comment [OF p] f
  have "call_comments example_isup_call = ''1-2 '' @ UTF8_RIGHTWARDS_ARROW @ '' 1-3''"
    by blast
  with p show ?thesis
    by (simp add: UTF8_RIGHTWARDS_ARROW_def)
qed

text \<open>
  C4. For a call whose protocol is H.323 the comment is \<open>Tunneling: \<close>, \<open>On\<close> or \<open>Off\<close>, two
  spaces, \<open>Fast Start: \<close>, \<open>On\<close> or \<open>Off\<close>. Tunneling is \<open>On\<close> exactly when the H.245
  tunneling flag is set. Fast Start is \<open>On\<close> exactly when the call is in setup and the
  fast-start flag of the Setup message is set, or the call is past setup and the fast-start
  flags of both the Setup and the Proceeding message are set. In setup, with the Setup
  flag set and tunneling off, the comment is \<open>Tunneling: Off  Fast Start: On\<close>.
\<close>

theorem h323_comment:
  assumes "protocol call_info = VOIP_H323"
  shows "call_comments call_info =
           ''Tunneling: '' @
           (if is_h245Tunneling (as_h323 (prot_info call_info)) then ''On'' else ''Off'') @
           ''  Fast Start: '' @
           (if (call_state call_info = VOIP_CALL_SETUP \<and>
                is_faststart_Setup (as_h323 (prot_info call_info))) \<or>
               (call_state call_info \<noteq> VOIP_CALL_SETUP \<and>
                is_faststart_Setup (as_h323 (prot_info call_info)) \<and>
                is_faststart_Proc (as_h323 (prot_info call_info)))
            then ''On'' else ''Off'') \<and>
         (call_state call_info = VOIP_CALL_SETUP \<and>
          is_faststart_Setup (as_h323 (prot_info call_info)) \<and>
          \<not> is_h245Tunneling (as_h323 (prot_info call_info)) \<longrightarrow>
          call_comments call_info = ''Tunneling: Off  Fast Start: On'') \<and>
         (\<forall>ext mem item p. user_data item = Some p \<and> mem p = call_info \<longrightarrow>
            item_text (drawData ext mem item) comments_col = call_comments call_info)"
proof -
  have on: "CHR ''%'' \<notin> set (tr ''On'')" and off: "CHR ''%'' \<notin> set (tr ''Off'')"
    by (simp_all add: tr_def)
  have general: "call_comments call_info =
           ''Tunneling: '' @
           (if is_h245Tunneling (as_h323 (prot_info call_info)) then ''On'' else ''Off'') @
           ''  Fast Start: '' @
           (if (call_state call_info = VOIP_CALL_SETUP \<and>
                is_faststart_Setup (as_h323 (prot_info call_info))) \<or>
               (call_state call_info \<noteq> VOIP_CALL_SETUP \<and>
                is_faststart_Setup (as_h323 (prot_info call_info)) \<and>
                is_faststart_Proc (as_h323 (prot_info call_info)))
            then ''On'' else ''Off'')"
    using assms on off
    by (simp add: call_comments_def Let_def h323_format) (simp add: tr_def)
  have row: "item_text (drawData ext mem item) comments_col = call_comments call_info"
    if "user_data item = Some p \<and> mem p = call_info" for ext mem item p
    using that drawData_comments [of item p ext mem] by simp
  have example: "call_comments call_info = ''Tunneling: Off  Fast Start: On''"
    if "call_state call_info = VOIP_CALL_SETUP \<and>
        is_faststart_Setup (as_h323 (prot_info call_info)) \<and>
        \<not> is_h245Tunneling (as_h323 (prot_info call_info))"
    using that by (simp add: general)
  from general example row show ?thesis
    by blast
qed

theorem h323_comment_witness:
  "protocol example_h323_call = VOIP_H323 \<and>
   call_comments example_h323_call = ''Tunneling: Off  Fast Start: On''"
proof -
  have p: "protocol example_h323_call = VOIP_H323"
    by (simp add: example_h323_call_def)
  have f: "call_state example_h323_call = VOIP_CALL_SETUP \<and>
           is_faststart_Setup (as_h323 (prot_info example_h323_call)) \<and>
           \<not> is_h245Tunneling (as_h323 (prot_info example_h323_call))"
    by (simp add: example_h323_call_def)
  from h323_comment [OF p] f
  have "call_comments example_h323_call = ''Tunneling: Off  Fast Start: On''"
    by blast
  with p show ?thesis
    by simp
qed

section \<open>The filter of the selected calls\<close>

text \<open>
  C1. For every set of selected call numbers and every sequence of events, the loop of
  \<open>prepareFilter\<close> over the event sequence yields the clauses \<open>frame.number == n\<close> of
  the events whose call is selected, in the order of the events in the sequence, joined
  with \<open>or\<close>. When the events of the selected call carry the frames 3, 7 and 9, in this
  order, whatever the events of other calls, the result is
  \<open>frame.number == 3 or frame.number == 7 or frame.number == 9\<close>. With at least one row
  selected, \<open>prepareFilter\<close> emits this string for the set of the selected rows' call
  numbers: the order of the clauses is the order of the events, and the selection enters
  as a set only.
\<close>

theorem filter_clauses_in_index_order:
  "prepareFilter_loop selected_calls (map Some events) [] [] =
     compileFilter selected_calls events \<and>
   (map (\<lambda>e. num (fd e)) (filter (\<lambda>e. conv_num e \<in> {call}) events) = [3, 7, 9] \<longrightarrow>
    prepareFilter_loop {call} (map Some events) [] [] =
      ''frame.number == 3 or frame.number == 7 or frame.number == 9'') \<and>
   (selectedItems (callTreeWidget d) \<noteq> [] \<and>
    (\<forall>ti \<in> set (selectedItems (callTreeWidget d)). user_data ti \<noteq> None) \<and>
    graph_analysis d = Some ga \<and> items ga = Some (map Some events) \<longrightarrow>
    prepareFilter d = Inr [updateFilter (compileFilter (selected_call_ids d) events)])"
proof -
  have loop: "prepareFilter_loop sel (map Some events) [] [] = compileFilter sel events" for sel
    by (simp add: prepareFilter_loop_start data_until_null_Some)
  have frames: "compileFilter {call} events =
      ''frame.number == 3 or frame.number == 7 or frame.number == 9''"
    if "map (\<lambda>e. num (fd e)) (filter (\<lambda>e. conv_num e \<in> {call}) events) = [3, 7, 9]"
  proof -
    have "map clause (filter (\<lambda>e. conv_num e \<in> {call}) events) =
        map (\<lambda>n. ''frame.number == '' @ QString_number n)
          (map (\<lambda>e. num (fd e)) (filter (\<lambda>e. conv_num e \<in> {call}) events))"
      by (simp add: clause_def comp_def)
    then show ?thesis
      unfolding compileFilter_def that
      by (simp add: QString_number.simps digit_char_def)
  qed
  have dialog: "prepareFilter d = Inr [updateFilter (compileFilter (selected_call_ids d) events)]"
    if "selectedItems (callTreeWidget d) \<noteq> [] \<and>
        (\<forall>ti \<in> set (selectedItems (callTreeWidget d)). user_data ti \<noteq> None) \<and>
        graph_analysis d = Some ga \<and> items ga = Some (map Some events)"
    using that prepareFilter_emits [of d ga "map Some events"]
    by (simp add: data_until_null_Some)
  from loop frames dialog show ?thesis
    by simp
qed

theorem filter_clauses_in_index_order_witness:
  "map (\<lambda>e. num (fd e)) (filter (\<lambda>e. conv_num e \<in> {1}) example_events) = [3, 7, 9] \<and>
   prepareFilter_loop {1} (map Some example_events) [] [] =
     ''frame.number == 3 or frame.number == 7 or frame.number == 9'' \<and>
   prepareFilter example_dialog =
     Inr [updateFilter ''frame.number == 3 or frame.number == 7 or frame.number == 9'']"
proof -
  have frames: "map (\<lambda>e. num (fd e)) (filter (\<lambda>e. conv_num e \<in> {1}) example_events) = [3, 7, 9]"
    by (simp add: example_events_def)
  have sel: "selectedItems (callTreeWidget example_dialog) \<noteq> [] \<and>
    (\<forall>ti \<in> set (selectedItems (callTreeWidget example_dialog)). user_data ti \<noteq> None) \<and>
    graph_analysis example_dialog = Some \<lparr>items = Some (map Some example_events)\<rparr> \<and>
    items \<lparr>items = Some (map Some example_events)\<rparr> = Some (map Some example_events)"
    by (simp add: example_selected example_row_data) (simp add: example_dialog_def)
  note inst = filter_clauses_in_index_order
    [of "{1}" example_events 1 example_dialog "\<lparr>items = Some (map Some example_events)\<rparr>"]
  from inst frames have a: "prepareFilter_loop {1} (map Some example_events) [] [] =
     ''frame.number == 3 or frame.number == 7 or frame.number == 9''"
    by blast
  from inst sel have "prepareFilter example_dialog =
      Inr [updateFilter (compileFilter (selected_call_ids example_dialog) example_events)]"
    by blast
  moreover from inst a have "compileFilter {1} example_events =
      ''frame.number == 3 or frame.number == 7 or frame.number == 9''"
    by simp
  ultimately show ?thesis
    using frames a by (simp add: example_selected_ids)
qed

text \<open>
  C2, as amended. With no row selected \<open>prepareFilter\<close> returns at its guard and emits
  no filter at all; this is not an error. With at least one row selected, each selected
  row holding a call, and an event sequence present, it emits the clauses of the events of
  the selected calls joined with \<open>or\<close>; when no event belongs to a selected call the
  emitted filter is the empty string. A joined filter with at least one clause starts with
  its first clause and ends with its last: no join token leads or trails.
\<close>

theorem prepareFilter_empty_results:
  "(selectedItems (callTreeWidget d) = [] \<longrightarrow> prepareFilter d = Inr []) \<and>
   (selectedItems (callTreeWidget d) \<noteq> [] \<and>
    (\<forall>ti \<in> set (selectedItems (callTreeWidget d)). user_data ti \<noteq> None) \<and>
    graph_analysis d = Some ga \<and> items ga = Some nodes \<longrightarrow>
      prepareFilter d =
        Inr [updateFilter (join_or (map clause
          (filter (\<lambda>e. conv_num e \<in> selected_call_ids d) (data_until_null nodes))))] \<and>
      (filter (\<lambda>e. conv_num e \<in> selected_call_ids d) (data_until_null nodes) = [] \<longrightarrow>
         prepareFilter d = Inr [updateFilter []])) \<and>
   (cs \<noteq> [] \<longrightarrow>
      (\<exists>rest. join_or cs = hd cs @ rest) \<and> (\<exists>front. join_or cs = front @ last cs))"
proof -
  have emits: "prepareFilter d =
        Inr [updateFilter (join_or (map clause
          (filter (\<lambda>e. conv_num e \<in> selected_call_ids d) (data_until_null nodes))))]"
    if "selectedItems (callTreeWidget d) \<noteq> [] \<and>
        (\<forall>ti \<in> set (selectedItems (callTreeWidget d)). user_data ti \<noteq> None) \<and>
        graph_analysis d = Some ga \<and> items ga = Some nodes"
    using that prepareFilter_emits [of d ga nodes] by (simp add: compileFilter_def)
  show ?thesis
    using emits join_or_starts [of cs] join_or_ends [of cs] prepareFilter_nothing_selected [of d]
    by auto
qed

theorem prepareFilter_empty_results_witness:
  "prepareFilter example_dialog_unselected = Inr [] \<and>
   prepareFilter example_dialog_other_call = Inr [updateFilter []] \<and>
   prepareFilter example_dialog =
     Inr [updateFilter ''frame.number == 3 or frame.number == 7 or frame.number == 9''] \<and>
   (\<exists>rest. join_or [''frame.number == 3'', ''frame.number == 7''] =
      ''frame.number == 3'' @ rest) \<and>
   (\<exists>front. join_or [''frame.number == 3'', ''frame.number == 7''] =
      front @ ''frame.number == 7'')"
proof -
  have a: "prepareFilter example_dialog_unselected = Inr []"
    using prepareFilter_empty_results [of example_dialog_unselected] example_unselected
    by blast
  have pre: "selectedItems (callTreeWidget example_dialog_other_call) \<noteq> [] \<and>
      (\<forall>ti \<in> set (selectedItems (callTreeWidget example_dialog_other_call)).
         user_data ti \<noteq> None)"
    by (simp add: example_other_call_selected example_row_data)
  have ga: "graph_analysis example_dialog_other_call = Some \<lparr>items = Some (map Some
        [\<lparr>fd = \<lparr>num = 1\<rparr>, conv_num = 0, display = True\<rparr>,
         \<lparr>fd = \<lparr>num = 4\<rparr>, conv_num = 0, display = True\<rparr>])\<rparr>"
    by (simp add: example_dialog_other_call_def)
  have none: "filter (\<lambda>e. conv_num e \<in> selected_call_ids example_dialog_other_call)
      (data_until_null (map Some
        [\<lparr>fd = \<lparr>num = 1\<rparr>, conv_num = 0, display = True\<rparr>,
         \<lparr>fd = \<lparr>num = 4\<rparr>, conv_num = (0 :: 16 word), display = True\<rparr>])) = []"
    by (simp add: example_other_call_ids)
  have b: "prepareFilter example_dialog_other_call = Inr [updateFilter []]"
    using prepareFilter_empty_results [of example_dialog_other_call
        "\<lparr>items = Some (map Some
        [\<lparr>fd = \<lparr>num = 1\<rparr>, conv_num = 0, display = True\<rparr>,
         \<lparr>fd = \<lparr>num = 4\<rparr>, conv_num = 0, display = True\<rparr>])\<rparr>"
        "map Some
        [\<lparr>fd = \<lparr>num = 1\<rparr>, conv_num = 0, display = True\<rparr>,
         \<lparr>fd = \<lparr>num = 4\<rparr>, conv_num = 0, display = True\<rparr>]"]
      pre ga none
    by simp
  have pre': "selectedItems (callTreeWidget example_dialog) \<noteq> [] \<and>
      (\<forall>ti \<in> set (selectedItems (callTreeWidget example_dialog)). user_data ti \<noteq> None) \<and>
      graph_analysis example_dialog = Some \<lparr>items = Some (map Some example_events)\<rparr> \<and>
      items \<lparr>items = Some (map Some example_events)\<rparr> = Some (map Some example_events)"
    by (simp add: example_selected example_row_data) (simp add: example_dialog_def)
  have "prepareFilter example_dialog =
      Inr [updateFilter (join_or (map clause
          (filter (\<lambda>e. conv_num e \<in> selected_call_ids example_dialog)
             (data_until_null (map Some example_events)))))]"
    using prepareFilter_empty_results [of example_dialog
        "\<lparr>items = Some (map Some example_events)\<rparr>" "map Some example_events"] pre'
    by blast
  then have c: "prepareFilter example_dialog =
     Inr [updateFilter ''frame.number == 3 or frame.number == 7 or frame.number == 9'']"
    by (simp add: example_selected_ids data_until_null_Some)
      (simp add: example_events_def clause_def QString_number.simps digit_char_def)
  have d: "(\<exists>rest. join_or [''frame.number == 3'', ''frame.number == 7''] =
      hd [''frame.number == 3'', ''frame.number == 7''] @ rest) \<and>
   (\<exists>front. join_or [''frame.number == 3'', ''frame.number == 7''] =
      front @ last [''frame.number == 3'', ''frame.number == 7''])"
    using prepareFilter_empty_results [of _ _ _ "[''frame.number == 3'', ''frame.number == 7'']"]
    by blast
  from a b c d show ?thesis
    by (simp del: join_or.simps)
qed

text \<open>
  C2 as stated fails: with no row selected the result of \<open>prepareFilter\<close> is not the
  empty filter string, it is no filter at all.
\<close>

theorem prepareFilter_empty_selection_counterexample:
  "selected_call_ids example_dialog_unselected = {} \<and>
   prepareFilter example_dialog_unselected = Inr [] \<and>
   prepareFilter example_dialog_unselected \<noteq> Inr [updateFilter []]"
  using prepareFilter_nothing_selected [OF example_unselected]
  by (simp add: selected_call_ids_def example_unselected List.map_filter_simps)

text \<open>
  C10. When a node of the event sequence has no data, the loop of \<open>prepareFilter\<close> ends
  at the first such node: the filter has the clauses of the selected calls' events before
  that node and nothing of the events after it. The loop of \<open>updateCalls\<close> that adds the
  missing rows ends at a node without data in the same way: it adds one row for each call
  before that node, in their order, and none for a call after it.
\<close>

theorem walks_stop_at_null_data:
  "prepareFilter_loop selected_calls (map Some before @ None # after) [] [] =
     compileFilter selected_calls before \<and>
   length (add_missing_items ext mem (map Some calls @ None # rest) tree) = length calls \<and>
   last (tree # add_missing_items ext mem (map Some calls @ None # rest) tree) =
     tree\<lparr>topLevelItems := topLevelItems tree @ map (\<lambda>p. new_row ext mem (Some p)) calls\<rparr>"
proof -
  have filter_cut: "prepareFilter_loop selected_calls (map Some before @ None # after) [] [] =
      compileFilter selected_calls before"
    by (simp add: prepareFilter_loop_start data_until_null_cut)
  have count: "length (add_missing_items ext mem (map Some calls @ None # rest) tree) =
      length calls"
    by (simp add: add_missing_items_length data_until_null_cut)
  have rows: "last (tree # add_missing_items ext mem (map Some calls @ None # rest) tree) =
      tree\<lparr>topLevelItems := topLevelItems tree @ map (\<lambda>p. new_row ext mem (Some p)) calls\<rparr>"
    by (simp only: add_missing_items_last data_until_null_cut)
  from filter_cut count rows show ?thesis
    by (simp only: simp_thms)
qed

section \<open>The order of the rows\<close>

text \<open>
  C5, as amended. When the sort column is the start time or the stop time, the comparator
  orders two rows that hold calls by the numeric comparison of the corresponding relative
  timestamps: the first row is less than the second exactly when its timestamp is the
  smaller number. For two calls with equal timestamps the comparator answers false in both
  directions: it breaks no tie, and the position of a call in the store does not enter it.
\<close>

theorem time_columns_compare_timestamps:
  assumes "user_data a = Some p" and "user_data b = Some q"
  shows "operator_less mem start_time_col a b =
           (nstime_value (start_rel_ts (mem p)) < nstime_value (start_rel_ts (mem q))) \<and>
         operator_less mem stop_time_col a b =
           (nstime_value (stop_rel_ts (mem p)) < nstime_value (stop_rel_ts (mem q))) \<and>
         (nstime_value (start_rel_ts (mem p)) = nstime_value (start_rel_ts (mem q)) \<longrightarrow>
            \<not> operator_less mem start_time_col a b \<and> \<not> operator_less mem start_time_col b a) \<and>
         (nstime_value (stop_rel_ts (mem p)) = nstime_value (stop_rel_ts (mem q)) \<longrightarrow>
            \<not> operator_less mem stop_time_col a b \<and> \<not> operator_less mem stop_time_col b a)"
proof -
  have forward: "operator_less mem column a b =
      (if column = start_time_col
       then nstime_value (start_rel_ts (mem p)) < nstime_value (start_rel_ts (mem q))
       else if column = stop_time_col
       then nstime_value (stop_rel_ts (mem p)) < nstime_value (stop_rel_ts (mem q))
       else operator_less mem column a b)" for column
    by (simp add: operator_less_Some [OF assms])
  have backward: "operator_less mem column b a =
      (if column = start_time_col
       then nstime_value (start_rel_ts (mem q)) < nstime_value (start_rel_ts (mem p))
       else if column = stop_time_col
       then nstime_value (stop_rel_ts (mem q)) < nstime_value (stop_rel_ts (mem p))
       else operator_less mem column b a)" for column
    by (simp add: operator_less_Some [OF assms(2) assms(1)])
  have start_ab: "operator_less mem start_time_col a b =
      (nstime_value (start_rel_ts (mem p)) < nstime_value (start_rel_ts (mem q)))"
    using forward [of start_time_col] by simp
  have start_ba: "operator_less mem start_time_col b a =
      (nstime_value (start_rel_ts (mem q)) < nstime_value (start_rel_ts (mem p)))"
    using backward [of start_time_col] by simp
  have stop_ab: "operator_less mem stop_time_col a b =
      (nstime_value (stop_rel_ts (mem p)) < nstime_value (stop_rel_ts (mem q)))"
    using forward [of stop_time_col] by (simp add: col_defs)
  have stop_ba: "operator_less mem stop_time_col b a =
      (nstime_value (stop_rel_ts (mem q)) < nstime_value (stop_rel_ts (mem p)))"
    using backward [of stop_time_col] by (simp add: col_defs)
  show ?thesis
    by (simp add: start_ab start_ba stop_ab stop_ba)
qed

theorem time_columns_compare_timestamps_witness:
  "operator_less example_memory start_time_col (example_row 10 False) (example_row 30 False) \<and>
   \<not> operator_less example_memory start_time_col (example_row 30 False) (example_row 10 False) \<and>
   operator_less example_memory stop_time_col (example_row 10 False) (example_row 20 False) \<and>
   \<not> operator_less example_memory start_time_col (example_row 10 False) (example_row 20 False) \<and>
   \<not> operator_less example_memory start_time_col (example_row 20 False) (example_row 10 False)"
  using time_columns_compare_timestamps
      [of "example_row 10 False" 10 "example_row 30 False" 30 example_memory]
    time_columns_compare_timestamps
      [of "example_row 30 False" 30 "example_row 10 False" 10 example_memory]
    time_columns_compare_timestamps
      [of "example_row 10 False" 10 "example_row 20 False" 20 example_memory]
  by (simp add: example_row_data example_memory_def example_isup_call_def example_h323_call_def
      example_common_call_def nstime_value_def)

text \<open>
  C5 as stated fails: of two calls with equal start times, the one stored first is not
  less than the one stored second.
\<close>

theorem tie_not_broken_by_store_order_counterexample:
  "callsinfos example_dialog = [Some 10, Some 20] \<and>
   user_data (example_row 10 False) = Some 10 \<and>
   user_data (example_row 20 False) = Some 20 \<and>
   start_rel_ts (example_memory 10) = start_rel_ts (example_memory 20) \<and>
   \<not> operator_less example_memory start_time_col (example_row 10 False) (example_row 20 False) \<and>
   \<not> operator_less example_memory start_time_col (example_row 20 False) (example_row 10 False)"
  by (simp add: example_row_data operator_less_irrefl example_dialog_def
      operator_less_Some [of "example_row 10 False" 10 "example_row 20 False" 20]
      operator_less_Some [of "example_row 20 False" 20 "example_row 10 False" 10]
      example_memory_def example_isup_call_def example_h323_call_def)

text \<open>
  C6. For every sort column, the four with a comparison of their own and every other
  column, the comparator is irreflexive and transitive, and on two rows whose calls and
  texts are equal it answers false in both directions; it is a total function, with no
  failing case.
\<close>

theorem comparator_strict_order:
  "\<not> operator_less mem column a a \<and>
   (operator_less mem column a b \<and> operator_less mem column b c \<longrightarrow>
      operator_less mem column a c) \<and>
   (user_data a = Some p \<and> user_data b = Some q \<and> mem p = mem q \<and>
    item_text a = item_text b \<longrightarrow>
      \<not> operator_less mem column a b \<and> \<not> operator_less mem column b a)"
proof -
  have equal: "\<not> operator_less mem column a b \<and> \<not> operator_less mem column b a"
    if "user_data a = Some p \<and> user_data b = Some q \<and> mem p = mem q \<and>
        item_text a = item_text b"
    using that
    by (simp add: operator_less_Some [of a p b q] operator_less_Some [of b q a p]
        cmp_address_same string_less_same)
  show ?thesis
    using operator_less_irrefl [of mem column a] operator_less_trans [of mem column a b c] equal
    by blast
qed

theorem comparator_strict_order_witness:
  "operator_less example_memory packets_col (example_row 10 False) (example_row 20 False) \<and>
   operator_less example_memory packets_col (example_row 20 False) (example_row 30 False) \<and>
   operator_less example_memory packets_col (example_row 10 False) (example_row 30 False) \<and>
   \<not> operator_less example_memory packets_col (example_row 10 False) (example_row 10 False) \<and>
   \<not> operator_less example_memory comments_col (example_row 10 False) (example_row 10 True)"
proof -
  have ab: "operator_less example_memory packets_col (example_row 10 False) (example_row 20 False)"
    by (simp add: operator_less_Some [of "example_row 10 False" 10 "example_row 20 False" 20]
        example_row_data col_defs example_memory_def example_isup_call_def example_h323_call_def)
  have bc: "operator_less example_memory packets_col (example_row 20 False) (example_row 30 False)"
    by (simp add: operator_less_Some [of "example_row 20 False" 20 "example_row 30 False" 30]
        example_row_data col_defs example_memory_def example_common_call_def example_h323_call_def)
  have same: "user_data (example_row 10 False) = Some 10 \<and>
      user_data (example_row 10 True) = Some 10 \<and> example_memory 10 = example_memory 10 \<and>
      item_text (example_row 10 False) = item_text (example_row 10 True)"
    by (simp add: example_row_def drawData_def setText_def Let_def)
  from comparator_strict_order
      [of example_memory packets_col "example_row 10 False" "example_row 20 False"
        "example_row 30 False"] ab bc
  have ac: "operator_less example_memory packets_col (example_row 10 False) (example_row 30 False)"
    and aa: "\<not> operator_less example_memory packets_col (example_row 10 False) (example_row 10 False)"
    by blast+
  from comparator_strict_order
      [of example_memory comments_col "example_row 10 False" "example_row 10 True" _ 10 10] same
  have "\<not> operator_less example_memory comments_col (example_row 10 False) (example_row 10 True)"
    by blast
  with ab bc ac aa show ?thesis
    by simp
qed

section \<open>The flow sequence of the selected calls\<close>

text \<open>
  What \<open>showSequence\<close> does while the capture file is open.
\<close>

lemma showSequence_open:
  assumes "\<not> file_closed d"
    and "\<forall>ti \<in> set (selectedItems (callTreeWidget d)). user_data ti \<noteq> None"
    and "graph_analysis d = Some ga"
    and "items ga = Some (map Some events)"
    and "items (sequence_analysis_list_sort ext ga) = Some (map Some reordered)"
    and "mset reordered = mset events"
  shows "\<exists>d' ga' final.
           showSequence ext d = Inr d' \<and> graph_analysis d' = Some ga' \<and>
           items ga' = Some (map Some final) \<and>
           final = map (\<lambda>e. e\<lparr>display := conv_num e \<in> selected_call_ids d\<rparr>) reordered \<and>
           (\<forall>e \<in> set final. display e = (conv_num e \<in> selected_call_ids d)) \<and>
           length final = length events \<and>
           mset (map (\<lambda>e. e\<lparr>display := True\<rparr>) final) =
             mset (map (\<lambda>e. e\<lparr>display := True\<rparr>) events)"
proof -
  define final where
    "final = map (\<lambda>e. e\<lparr>display := conv_num e \<in> selected_call_ids d\<rparr>) reordered"
  define ga' where
    "ga' = (sequence_analysis_list_sort ext ga)\<lparr>items := Some (map Some final)\<rparr>"
  have run: "showSequence ext d = Inr (d\<lparr>graph_analysis := Some ga'\<rparr>)"
    using showSequence_runs [OF assms(1) assms(2) assms(3), of ext] assms(5)
    by (simp add: ga'_def final_def showSequence_loop_events)
  have flags: "\<forall>e \<in> set final. display e = (conv_num e \<in> selected_call_ids d)"
    by (auto simp: final_def)
  have len: "length final = length events"
    using assms(6) by (simp add: final_def) (metis size_mset)
  have "map (\<lambda>e. e\<lparr>display := True\<rparr>) final = map (\<lambda>e. e\<lparr>display := True\<rparr>) reordered"
    by (simp add: final_def)
  then have same: "mset (map (\<lambda>e. e\<lparr>display := True\<rparr>) final) =
      mset (map (\<lambda>e. e\<lparr>display := True\<rparr>) events)"
    using assms(6) by (metis mset_map)
  show ?thesis
  proof (intro exI conjI)
    show "showSequence ext d = Inr (d\<lparr>graph_analysis := Some ga'\<rparr>)"
      by (rule run)
    show "graph_analysis (d\<lparr>graph_analysis := Some ga'\<rparr>) = Some ga'"
      by simp
    show "items ga' = Some (map Some final)"
      by (simp add: ga'_def)
    show "final = map (\<lambda>e. e\<lparr>display := conv_num e \<in> selected_call_ids d\<rparr>) reordered"
      by (rule final_def)
    show "\<forall>e \<in> set final. display e = (conv_num e \<in> selected_call_ids d)"
      by (rule flags)
    show "length final = length events"
      by (rule len)
    show "mset (map (\<lambda>e. e\<lparr>display := True\<rparr>) final) =
        mset (map (\<lambda>e. e\<lparr>display := True\<rparr>) events)"
      by (rule same)
  qed
qed

text \<open>
  C7, as amended. When the capture file has been closed, \<open>showSequence\<close> returns at its
  guard and changes nothing: every event keeps the \<open>display\<close> flag it had. While the
  capture file is open, every selected row holds a call, and the event sequence is present
  with an event at each node: \<open>showSequence\<close> runs without error and leaves in the event
  sequence the events in the order the sort of the sequence gives them, each with its
  \<open>display\<close> flag true exactly when its call is one of the selected calls and false
  otherwise. The sort only reorders the events. No event is removed: the sequence keeps
  its length, and apart from the flags it holds the same events as before.
\<close>

theorem showSequence_sets_display:
  "(file_closed d \<longrightarrow> showSequence ext d = Inr d) \<and>
   (\<not> file_closed d \<and>
    (\<forall>ti \<in> set (selectedItems (callTreeWidget d)). user_data ti \<noteq> None) \<and>
    graph_analysis d = Some ga \<and>
    items ga = Some (map Some events) \<and>
    items (sequence_analysis_list_sort ext ga) = Some (map Some reordered) \<and>
    mset reordered = mset events \<longrightarrow>
    (\<exists>d' ga' final.
       showSequence ext d = Inr d' \<and> graph_analysis d' = Some ga' \<and>
       items ga' = Some (map Some final) \<and>
       final = map (\<lambda>e. e\<lparr>display := conv_num e \<in> selected_call_ids d\<rparr>) reordered \<and>
       (\<forall>e \<in> set final. display e = (conv_num e \<in> selected_call_ids d)) \<and>
       length final = length events \<and>
       mset (map (\<lambda>e. e\<lparr>display := True\<rparr>) final) =
         mset (map (\<lambda>e. e\<lparr>display := True\<rparr>) events)))"
proof (intro conjI impI)
  assume "file_closed d"
  then show "showSequence ext d = Inr d"
    by (rule showSequence_file_closed)
next
  assume open_file: "\<not> file_closed d \<and>
    (\<forall>ti \<in> set (selectedItems (callTreeWidget d)). user_data ti \<noteq> None) \<and>
    graph_analysis d = Some ga \<and>
    items ga = Some (map Some events) \<and>
    items (sequence_analysis_list_sort ext ga) = Some (map Some reordered) \<and>
    mset reordered = mset events"
  then have h1: "\<not> file_closed d"
    and h2: "\<forall>ti \<in> set (selectedItems (callTreeWidget d)). user_data ti \<noteq> None"
    and h3: "graph_analysis d = Some ga"
    and h4: "items ga = Some (map Some events)"
    and h5: "items (sequence_analysis_list_sort ext ga) = Some (map Some reordered)"
    and h6: "mset reordered = mset events"
    by simp_all
  show "\<exists>d' ga' final.
       showSequence ext d = Inr d' \<and> graph_analysis d' = Some ga' \<and>
       items ga' = Some (map Some final) \<and>
       final = map (\<lambda>e. e\<lparr>display := conv_num e \<in> selected_call_ids d\<rparr>) reordered \<and>
       (\<forall>e \<in> set final. display e = (conv_num e \<in> selected_call_ids d)) \<and>
       length final = length events \<and>
       mset (map (\<lambda>e. e\<lparr>display := True\<rparr>) final) =
         mset (map (\<lambda>e. e\<lparr>display := True\<rparr>) events)"
    by (rule showSequence_open [OF h1 h2 h3 h4 h5 h6])
qed

theorem showSequence_sets_display_witness:
  "showSequence example_externals example_dialog_closed = Inr example_dialog_closed \<and>
   (\<exists>d' ga'. showSequence example_externals example_dialog_two_selected = Inr d' \<and>
     graph_analysis d' = Some ga' \<and>
     items ga' = Some (map Some
       [\<lparr>fd = \<lparr>num = 1\<rparr>, conv_num = 0, display = False\<rparr>,
        \<lparr>fd = \<lparr>num = 2\<rparr>, conv_num = 1, display = True\<rparr>,
        \<lparr>fd = \<lparr>num = 3\<rparr>, conv_num = 2, display = True\<rparr>,
        \<lparr>fd = \<lparr>num = 4\<rparr>, conv_num = 0, display = False\<rparr>,
        \<lparr>fd = \<lparr>num = 5\<rparr>, conv_num = 2, display = True\<rparr>]))"
proof -
  have closed: "file_closed example_dialog_closed"
    by (simp add: example_dialog_closed_def)
  from showSequence_sets_display [of example_dialog_closed example_externals] closed
  have first: "showSequence example_externals example_dialog_closed = Inr example_dialog_closed"
    by blast
  have hyps: "\<not> file_closed example_dialog_two_selected \<and>
      (\<forall>ti \<in> set (selectedItems (callTreeWidget example_dialog_two_selected)).
         user_data ti \<noteq> None) \<and>
      graph_analysis example_dialog_two_selected =
        Some \<lparr>items = Some (map Some example_events_unsorted)\<rparr> \<and>
      items \<lparr>items = Some (map Some example_events_unsorted)\<rparr> =
        Some (map Some example_events_unsorted) \<and>
      items (sequence_analysis_list_sort example_externals
        \<lparr>items = Some (map Some example_events_unsorted)\<rparr>) =
        Some (map Some example_events_reordered) \<and>
      mset example_events_reordered = mset example_events_unsorted"
  proof (intro conjI)
    show "\<not> file_closed example_dialog_two_selected"
      by (simp add: example_dialog_two_selected_def)
    show "\<forall>ti \<in> set (selectedItems (callTreeWidget example_dialog_two_selected)).
        user_data ti \<noteq> None"
      by (simp add: example_two_selected example_row_data)
    show "graph_analysis example_dialog_two_selected =
        Some \<lparr>items = Some (map Some example_events_unsorted)\<rparr>"
      by (simp add: example_dialog_two_selected_def)
    show "items \<lparr>items = Some (map Some example_events_unsorted)\<rparr> =
        Some (map Some example_events_unsorted)"
      by simp
    show "items (sequence_analysis_list_sort example_externals
        \<lparr>items = Some (map Some example_events_unsorted)\<rparr>) =
        Some (map Some example_events_reordered)"
      by (rule example_sort)
    show "mset example_events_reordered = mset example_events_unsorted"
      by (simp add: example_events_unsorted_def example_events_reordered_def)
  qed
  from showSequence_sets_display
    [of example_dialog_two_selected example_externals
      "\<lparr>items = Some (map Some example_events_unsorted)\<rparr>"
      example_events_unsorted example_events_reordered] hyps
  obtain d' ga' final where run: "showSequence example_externals example_dialog_two_selected = Inr d'"
    and ga: "graph_analysis d' = Some ga'" and its: "items ga' = Some (map Some final)"
    and final: "final = map (\<lambda>e. e\<lparr>display :=
        conv_num e \<in> selected_call_ids example_dialog_two_selected\<rparr>) example_events_reordered"
    by blast
  from final have "final =
       [\<lparr>fd = \<lparr>num = 1\<rparr>, conv_num = 0, display = False\<rparr>,
        \<lparr>fd = \<lparr>num = 2\<rparr>, conv_num = 1, display = True\<rparr>,
        \<lparr>fd = \<lparr>num = 3\<rparr>, conv_num = 2, display = True\<rparr>,
        \<lparr>fd = \<lparr>num = 4\<rparr>, conv_num = 0, display = False\<rparr>,
        \<lparr>fd = \<lparr>num = 5\<rparr>, conv_num = 2, display = True\<rparr>]"
    by (simp add: example_two_selected_ids example_events_reordered_def)
  with run ga its first show ?thesis
    by blast
qed

text \<open>
  C7 as stated fails: with the capture file closed and the second and third call selected,
  \<open>showSequence\<close> returns the dialog as it was, and in its event sequence the flags are
  not the membership of the events' calls in the selection: the event of frame 4 belongs
  to the first call and stays displayed, the event of frame 3 belongs to the third call and
  stays hidden.
\<close>

theorem showSequence_file_closed_counterexample:
  "file_closed example_dialog_closed \<and>
   selected_call_ids example_dialog_closed = {1, 2} \<and>
   showSequence example_externals example_dialog_closed = Inr example_dialog_closed \<and>
   graph_analysis example_dialog_closed =
     Some \<lparr>items = Some (map Some example_events_unsorted)\<rparr> \<and>
   \<not> list_all (\<lambda>e. display e = (conv_num e \<in> selected_call_ids example_dialog_closed))
       example_events_unsorted \<and>
   display (example_events_unsorted ! 0) \<and>
   conv_num (example_events_unsorted ! 0) \<notin> selected_call_ids example_dialog_closed \<and>
   \<not> display (example_events_unsorted ! 2) \<and>
   conv_num (example_events_unsorted ! 2) \<in> selected_call_ids example_dialog_closed"
proof -
  have closed: "file_closed example_dialog_closed"
    by (simp add: example_dialog_closed_def)
  have unchanged: "showSequence example_externals example_dialog_closed =
      Inr example_dialog_closed"
    using closed by (rule showSequence_file_closed)
  have ga: "graph_analysis example_dialog_closed =
      Some \<lparr>items = Some (map Some example_events_unsorted)\<rparr>"
    by (simp add: example_dialog_closed_def example_dialog_two_selected_def)
  have flags: "\<not> list_all (\<lambda>e. display e = (conv_num e \<in> {1, 2})) example_events_unsorted"
    and first: "display (example_events_unsorted ! 0)"
      "conv_num (example_events_unsorted ! 0) \<notin> {1, 2}"
    and third: "\<not> display (example_events_unsorted ! 2)"
      "conv_num (example_events_unsorted ! 2) \<in> {1, 2}"
    by (simp_all add: example_events_unsorted_def)
  from closed unchanged ga flags first third show ?thesis
    by (simp only: example_closed_ids simp_thms)
qed

section \<open>The refresh of the table\<close>

text \<open>
  C8. In every run of \<open>updateCalls\<close> the first step switches sorting off, and sorting is
  off in every state of the dialog from there through the loop that adds the missing rows
  and the loop that draws every row. The last of these states holds the complete table:
  the old rows and a row for each call created since the last refresh, all drawn. Only the
  step after it switches sorting on again, and what it sorts is this complete table. The
  table is never sorted, and sorting is never on, while rows are still being added or
  drawn.
\<close>

theorem sorting_suspended_during_refresh:
  "\<exists>before enabled.
     updateCalls_states ext d = before @ [enabled, updateCalls ext d] \<and>
     hd before = d\<lparr>callTreeWidget := (callTreeWidget d)\<lparr>sortingEnabled := False\<rparr>\<rparr> \<and>
     length before =
       1 + length (calls_since_last_refresh d) + length (appended_and_refreshed ext d) \<and>
     (\<forall>s \<in> set before. \<not> sortingEnabled (callTreeWidget s)) \<and>
     topLevelItems (callTreeWidget (last before)) = appended_and_refreshed ext d \<and>
     sortingEnabled (callTreeWidget enabled) \<and>
     topLevelItems (callTreeWidget enabled) =
       stable_sort
         (item_compare (heap d) (sortColumn (callTreeWidget d)) (sortOrder (callTreeWidget d)))
         (appended_and_refreshed ext d) \<and>
     callTreeWidget (updateCalls ext d) = callTreeWidget enabled"
proof -
  define tree1 where "tree1 = (callTreeWidget d)\<lparr>sortingEnabled := False\<rparr>"
  define added where
    "added = add_missing_items ext (heap d)
       (drop (topLevelItemCount (callTreeWidget d)) (callsinfos d)) tree1"
  define rows2 where
    "rows2 = topLevelItems (callTreeWidget d) @
       map (\<lambda>p. new_row ext (heap d) (Some p)) (calls_since_last_refresh d)"
  define tree2 where "tree2 = (callTreeWidget d)\<lparr>sortingEnabled := False, topLevelItems := rows2\<rparr>"
  define filled where "filled = fill_in_the_tree ext (heap d) [] rows2 tree2"
  define before where
    "before = map (\<lambda>tree. d\<lparr>callTreeWidget := tree\<rparr>) ([tree1] @ added @ filled)"
  define enabled where
    "enabled = d\<lparr>callTreeWidget := setSortingEnabled (heap d) True (table_before_sorting ext d)\<rparr>"
  have states: "updateCalls_states ext d = before @ [enabled, updateCalls ext d]"
    by (simp add: updateCalls_states_eq updateCalls_eq before_def enabled_def tree1_def
        added_def filled_def tree2_def rows2_def)
  have first: "hd before = d\<lparr>callTreeWidget := (callTreeWidget d)\<lparr>sortingEnabled := False\<rparr>\<rparr>"
    by (simp add: before_def tree1_def)
  have len: "length before =
      1 + length (calls_since_last_refresh d) + length (appended_and_refreshed ext d)"
    by (simp add: before_def added_def filled_def add_missing_items_length
        fill_in_the_tree_length calls_since_last_refresh_def appended_and_refreshed_def rows2_def)
  have "list_all (\<lambda>t. sortingEnabled t = sortingEnabled tree1) added"
    unfolding added_def by (rule add_missing_items_sorting_all)
  moreover have "list_all (\<lambda>t. sortingEnabled t = sortingEnabled tree2) filled"
    unfolding filled_def by (rule fill_in_the_tree_sorting)
  ultimately have off: "\<forall>s \<in> set before. \<not> sortingEnabled (callTreeWidget s)"
    by (auto simp: before_def tree1_def tree2_def list_all_iff)
  have "last (tree1 # added) = tree2"
    unfolding tree1_def added_def tree2_def rows2_def by (rule after_adding)
  then have "last (tree1 # added @ filled) = last (tree2 # filled)"
    by (simp only: last_append_states)
  also have "\<dots> = tree2\<lparr>topLevelItems := map (drawData ext (heap d)) (topLevelItems tree2)\<rparr>"
    using after_filling [of tree2 ext "heap d"] by (simp add: filled_def tree2_def)
  finally have "last ([tree1] @ added @ filled) = table_before_sorting ext d"
    by (simp add: tree2_def table_before_sorting_def appended_and_refreshed_def rows2_def)
  moreover have "last before =
      (\<lambda>tree. d\<lparr>callTreeWidget := tree\<rparr>) (last ([tree1] @ added @ filled))"
    unfolding before_def by (rule last_map) simp
  ultimately have "last before = d\<lparr>callTreeWidget := table_before_sorting ext d\<rparr>"
    by simp
  then have complete: "topLevelItems (callTreeWidget (last before)) = appended_and_refreshed ext d"
    by (simp add: table_before_sorting_def)
  have on: "sortingEnabled (callTreeWidget enabled)"
    by (simp add: enabled_def setSortingEnabled_def)
  have sorted_rows: "topLevelItems (callTreeWidget enabled) =
       stable_sort
         (item_compare (heap d) (sortColumn (callTreeWidget d)) (sortOrder (callTreeWidget d)))
         (appended_and_refreshed ext d)"
    by (simp add: enabled_def setSortingEnabled_def sortItems_def table_before_sorting_def)
  have final: "callTreeWidget (updateCalls ext d) = callTreeWidget enabled"
    by (simp add: updateCalls_eq updateWidgets_tree enabled_def)
  from states first len off complete on sorted_rows final show ?thesis
    by blast
qed

theorem sorting_suspended_during_refresh_witness:
  "\<exists>before enabled.
     updateCalls_states example_externals example_dialog_one_missing =
       before @ [enabled, updateCalls example_externals example_dialog_one_missing] \<and>
     length before = 5 \<and>
     list_all (\<lambda>s. \<not> sortingEnabled (callTreeWidget s)) before \<and>
     sortingEnabled (callTreeWidget enabled) \<and>
     topLevelItems (callTreeWidget enabled) =
       [example_row 30 False, example_row 20 True, example_row 10 False]"
proof -
  from sorting_suspended_during_refresh [of example_externals example_dialog_one_missing]
  obtain before enabled where
    states: "updateCalls_states example_externals example_dialog_one_missing =
       before @ [enabled, updateCalls example_externals example_dialog_one_missing]"
    and len: "length before = 1 + length (calls_since_last_refresh example_dialog_one_missing) +
       length (appended_and_refreshed example_externals example_dialog_one_missing)"
    and off: "\<forall>s \<in> set before. \<not> sortingEnabled (callTreeWidget s)"
    and on: "sortingEnabled (callTreeWidget enabled)"
    and rows: "topLevelItems (callTreeWidget enabled) =
       stable_sort
         (item_compare (heap example_dialog_one_missing)
            (sortColumn (callTreeWidget example_dialog_one_missing))
            (sortOrder (callTreeWidget example_dialog_one_missing)))
         (appended_and_refreshed example_externals example_dialog_one_missing)"
    by blast
  have "heap example_dialog_one_missing = example_memory"
    and "sortColumn (callTreeWidget example_dialog_one_missing) = 6"
    and "sortOrder (callTreeWidget example_dialog_one_missing) = DescendingOrder"
    by (simp_all add: example_dialog_one_missing_def)
  moreover have "operator_less example_memory 6 (example_row 20 True) (example_row 30 False)"
    and "operator_less example_memory 6 (example_row 10 False) (example_row 30 False)"
    and "operator_less example_memory 6 (example_row 10 False) (example_row 20 True)"
    by (simp_all add: example_packets_less)
      (simp_all add: example_memory_def example_isup_call_def example_h323_call_def
        example_common_call_def)
  ultimately have "topLevelItems (callTreeWidget enabled) =
       [example_row 30 False, example_row 20 True, example_row 10 False]"
    using rows by (simp add: example_one_missing_rows item_compare_def)
  moreover from len have "length before = 5"
    by (simp add: example_one_missing_calls example_one_missing_rows)
  moreover from off have "list_all (\<lambda>s. \<not> sortingEnabled (callTreeWidget s)) before"
    by (simp add: list_all_iff)
  ultimately show ?thesis
    using states on by blast
qed

text \<open>
  C9. A second run of \<open>updateCalls\<close> right after a first, on the same store, leaves the
  dialog as the first run left it: the same rows with the same texts in the same order.
  The second run adds no row, because the number of rows of the table is the position in
  the store from which it looks for new calls, and there it finds the end of the store or
  a node without data; and drawing the rows again changes none of them.
\<close>

theorem refresh_twice_same_table:
  "updateCalls ext (updateCalls ext d) = updateCalls ext d \<and>
   calls_since_last_refresh (updateCalls ext d) = [] \<and>
   appended_and_refreshed ext (updateCalls ext d) =
     topLevelItems (callTreeWidget (updateCalls ext d))"
proof -
  define cmp where
    "cmp = item_compare (heap d) (sortColumn (callTreeWidget d)) (sortOrder (callTreeWidget d))"
  define rows where "rows = stable_sort cmp (appended_and_refreshed ext d)"
  define tree where
    "tree = (callTreeWidget d)\<lparr>topLevelItems := rows, sortingEnabled := True\<rparr>"
  define d1 where "d1 = updateCalls ext d"
  have asym: "\<And>a b. cmp a b \<Longrightarrow> \<not> cmp b a"
    unfolding cmp_def by (rule item_compare_asym)
  have d1: "d1 = updateWidgets (d\<lparr>callTreeWidget := tree\<rparr>)"
    by (simp add: d1_def updateCalls_eq setSortingEnabled_def sortItems_def
        table_before_sorting_def tree_def rows_def cmp_def)
  have tree1: "callTreeWidget d1 = tree" and heap1: "heap d1 = heap d"
    and calls1: "callsinfos d1 = callsinfos d"
    by (simp_all add: d1 updateWidgets_tree updateWidgets_fields)
  have count: "topLevelItemCount tree =
      topLevelItemCount (callTreeWidget d) + length (calls_since_last_refresh d)"
    by (simp add: tree_def rows_def topLevelItemCount_def stable_sort_length
        appended_and_refreshed_length)
  have none: "calls_since_last_refresh d1 = []"
    unfolding calls_since_last_refresh_def tree1 calls1 count
    using data_until_null_rest
      [of "drop (topLevelItemCount (callTreeWidget d)) (callsinfos d)"]
    by (simp add: calls_since_last_refresh_def add.commute)
  have "\<forall>row \<in> set rows. drawData ext (heap d) row = row"
    by (simp add: rows_def stable_sort_set appended_and_refreshed_drawn)
  then have "map (drawData ext (heap d)) rows = rows"
    by (simp add: map_idI)
  then have same: "appended_and_refreshed ext d1 = rows"
    by (simp add: appended_and_refreshed_def none tree1 heap1 tree_def)
  have "stable_sort cmp rows = rows"
    unfolding rows_def by (rule stable_sort_idem [OF asym])
  then have "setSortingEnabled (heap d1) True (table_before_sorting ext d1) = tree"
    by (simp add: setSortingEnabled_def sortItems_def table_before_sorting_def same tree1 heap1)
      (simp add: tree_def cmp_def)
  then have "updateCalls ext d1 = updateWidgets (d1\<lparr>callTreeWidget := callTreeWidget d1\<rparr>)"
    by (simp add: updateCalls_eq tree1)
  also have "\<dots> = d1"
    by (simp add: d1 updateWidgets_idem)
  finally have "updateCalls ext d1 = d1" .
  with none same show ?thesis
    by (simp add: d1_def [symmetric] tree1 tree_def)
qed

end
